theory Spec2Isabelle
  imports Main "HOL-Library.Word"
begin

unbundle bit_operations_syntax

section \<open>Ignore lists (tsan/ignore.cc)\<close>

text \<open>
  Modelled from the spec: \<open>IgnoreTriple\<close> (declared in ignore.h, which is not among the
  sources): three glob patterns, for the function, the object and the file; ignore.cc
  reads them as the members \<open>fun\<close>, \<open>obj\<close> and \<open>file\<close>.
\<close>

record IgnoreTriple =
  t_fun :: string
  t_obj :: string
  t_file :: string

text \<open>
  Modelled from the spec: \<open>IgnoreLists\<close> (ignore.h), the three vectors that
  \<open>ReadIgnoreLine\<close> appends to.
\<close>

record IgnoreLists =
  ignores :: "IgnoreTriple list"
  ignores_r :: "IgnoreTriple list"
  ignores_hist :: "IgnoreTriple list"

text \<open>
  Modelled from the spec: the constructors \<open>IgnoreObj\<close>, \<open>IgnoreFile\<close> and \<open>IgnoreFun\<close>
  (ignore.h). The spec describes \<open>obj:\<close> as matching by binary image, \<open>src:\<close> by source
  file and \<open>fun:\<close> by function name; the components that are not named are the wildcard.
\<close>

definition IgnoreObj :: "string \<Rightarrow> IgnoreTriple" where
  "IgnoreObj x = \<lparr>t_fun = ''*'', t_obj = x, t_file = ''*''\<rparr>"

text \<open>Modelled from the spec: \<open>IgnoreFile\<close> (ignore.h), a triple that names the source file.\<close>

definition IgnoreFile :: "string \<Rightarrow> IgnoreTriple" where
  "IgnoreFile x = \<lparr>t_fun = ''*'', t_obj = ''*'', t_file = x\<rparr>"

text \<open>Modelled from the spec: \<open>IgnoreFun\<close> (ignore.h), a triple that names the function.\<close>

definition IgnoreFun :: "string \<Rightarrow> IgnoreTriple" where
  "IgnoreFun x = \<lparr>t_fun = x, t_obj = ''*'', t_file = ''*''\<rparr>"

text \<open>
  The loop of \<open>SplitStringIntoLinesAndRemoveBlanksAndComments\<close>: one step per character,
  carrying \<open>cur_line\<close>, \<open>in_comment\<close> and the output vector.
\<close>

fun split_loop :: "string \<Rightarrow> string \<Rightarrow> bool \<Rightarrow> string list \<Rightarrow> string list" where
  "split_loop [] cur_line in_comment lines = lines"
| "split_loop (ch # str) cur_line in_comment lines =
     (if ch = CHR 0x0A then
        split_loop str [] False (if cur_line \<noteq> [] then lines @ [cur_line] else lines)
      else if ch = CHR '' '' \<or> ch = CHR 0x09 then split_loop str cur_line in_comment lines
      else if ch = CHR ''#'' then split_loop str cur_line True lines
      else if \<not> in_comment then split_loop str (cur_line @ [ch]) in_comment lines
      else split_loop str cur_line in_comment lines)"

definition SplitStringIntoLinesAndRemoveBlanksAndComments ::
  "string \<Rightarrow> string list \<Rightarrow> string list" where
  "SplitStringIntoLinesAndRemoveBlanksAndComments str lines = split_loop str [] False lines"

text \<open>\<open>input.find(prefix) == 0\<close>: the prefix occurs at position 0.\<close>

definition CutStringPrefixIfPresent :: "string \<Rightarrow> string \<Rightarrow> string option" where
  "CutStringPrefixIfPresent input pfx =
     (if take (length pfx) input = pfx then Some (drop (length pfx) input) else None)"

text \<open>\<open>ReadIgnoreLine\<close> returns \<open>None\<close> where the source returns false.\<close>

definition ReadIgnoreLine :: "string \<Rightarrow> IgnoreLists \<Rightarrow> IgnoreLists option" where
  "ReadIgnoreLine input_line ignore_lists =
     (case CutStringPrefixIfPresent input_line ''obj:'' of
        Some tail \<Rightarrow> Some (ignore_lists\<lparr>ignores := ignores ignore_lists @ [IgnoreObj tail]\<rparr>)
      | None \<Rightarrow>
     (case CutStringPrefixIfPresent input_line ''src:'' of
        Some tail \<Rightarrow> Some (ignore_lists\<lparr>ignores := ignores ignore_lists @ [IgnoreFile tail]\<rparr>)
      | None \<Rightarrow>
     (case CutStringPrefixIfPresent input_line ''fun:'' of
        Some tail \<Rightarrow> Some (ignore_lists\<lparr>ignores := ignores ignore_lists @ [IgnoreFun tail]\<rparr>)
      | None \<Rightarrow>
     (case CutStringPrefixIfPresent input_line ''fun_r:'' of
        Some tail \<Rightarrow> Some (ignore_lists\<lparr>ignores_r := ignores_r ignore_lists @ [IgnoreFun tail]\<rparr>)
      | None \<Rightarrow>
     (case CutStringPrefixIfPresent input_line ''fun_hist:'' of
        Some tail \<Rightarrow>
          Some (ignore_lists\<lparr>ignores_hist := ignores_hist ignore_lists @ [IgnoreFun tail]\<rparr>)
      | None \<Rightarrow> None)))))"

text \<open>
  A fatal exit of the process: the text printed just before it, if any, and the failed
  check. \<open>CHECK(0)\<close> in \<open>ReadIgnoresFromString\<close> ends the process after the \<open>Printf\<close>.
\<close>

datatype fatal = Fatal string

text \<open>
  What \<open>Printf("Error reading ignore file line:\n%s\n", line.c_str())\<close> prints: \<open>%s\<close>
  reads the C string, which ends at the first NUL character of the line.
\<close>

definition ignore_error_text :: "string \<Rightarrow> string" where
  "ignore_error_text line =
     ''Error reading ignore file line:'' @ [CHR 0x0A]
       @ takeWhile (\<lambda>ch. ch \<noteq> CHR 0x00) line @ [CHR 0x0A]"

fun read_lines :: "string list \<Rightarrow> IgnoreLists \<Rightarrow> fatal + IgnoreLists" where
  "read_lines [] g = Inr g"
| "read_lines (line # lines) g =
     (case ReadIgnoreLine line g of
        None \<Rightarrow> Inl (Fatal (ignore_error_text line))
      | Some g' \<Rightarrow> read_lines lines g')"

definition ReadIgnoresFromString :: "string \<Rightarrow> IgnoreLists \<Rightarrow> fatal + IgnoreLists" where
  "ReadIgnoresFromString ignoreString g_ignore_lists =
     read_lines (SplitStringIntoLinesAndRemoveBlanksAndComments ignoreString []) g_ignore_lists"

text \<open>
  Modelled from the spec: \<open>StringMatch\<close> (stringmatch.h is not among the sources). The
  spec says that globs use the wildcards \<open>*\<close> (any run of characters) and \<open>?\<close> (any one
  character).
\<close>

fun StringMatch :: "string \<Rightarrow> string \<Rightarrow> bool" where
  "StringMatch [] s = (s = [])"
| "StringMatch (p # ps) [] = (p = CHR ''*'' \<and> StringMatch ps [])"
| "StringMatch (p # ps) (c # cs) =
     (if p = CHR ''*'' then StringMatch ps (c # cs) \<or> StringMatch (p # ps) cs
      else (p = CHR ''?'' \<or> p = c) \<and> StringMatch ps cs)"

text \<open>
  \<open>StringVectorMatch\<close> and \<open>TripleVectorMatchKnown\<close>, with the matcher as the parameter
  \<open>sm\<close>; the loops over the vector are recursion over the list.
\<close>

fun StringVectorMatch :: "(string \<Rightarrow> string \<Rightarrow> bool) \<Rightarrow> string list \<Rightarrow> string \<Rightarrow> bool" where
  "StringVectorMatch sm [] s = False"
| "StringVectorMatch sm (p # v) s = (if sm p s then True else StringVectorMatch sm v s)"

fun TripleVectorMatchKnown ::
  "(string \<Rightarrow> string \<Rightarrow> bool) \<Rightarrow> IgnoreTriple list \<Rightarrow> string \<Rightarrow> string \<Rightarrow> string \<Rightarrow> bool" where
  "TripleVectorMatchKnown sm [] fn ob fl = False"
| "TripleVectorMatchKnown sm (t # v) fn ob fl =
     (if (length fn = 0 \<or> sm (t_fun t) fn) \<and>
         (length ob = 0 \<or> sm (t_obj t) ob) \<and>
         (length fl = 0 \<or> sm (t_file t) fl)
      then
        (if (length fn = 0 \<or> t_fun t = ''*'') \<and>
            (length ob = 0 \<or> t_obj t = ''*'') \<and>
            (length fl = 0 \<or> t_file t = ''*'')
         then TripleVectorMatchKnown sm v fn ob fl
         else True)
      else TripleVectorMatchKnown sm v fn ob fl)"

subsection \<open>What the suppression syntax says, for comparison with the code\<close>

text \<open>
  A line with every space and tab deleted and everything from the first \<open>#\<close> on
  discarded.
\<close>

definition strip_line :: "string \<Rightarrow> string" where
  "strip_line l =
     filter (\<lambda>ch. ch \<noteq> CHR '' '' \<and> ch \<noteq> CHR 0x09) (takeWhile (\<lambda>ch. ch \<noteq> CHR ''#'') l)"

definition has_prefix :: "string \<Rightarrow> string \<Rightarrow> bool" where
  "has_prefix p l = (take (length p) l = p)"

text \<open>A line that begins with one of the five directives.\<close>

definition known_line :: "string \<Rightarrow> bool" where
  "known_line l =
     (\<exists>p \<in> set [''obj:'', ''src:'', ''fun:'', ''fun_r:'', ''fun_hist:'']. has_prefix p l)"

text \<open>The entry that a line adds to each of the three lists (at most one in all).\<close>

definition ignores_of_line :: "string \<Rightarrow> IgnoreTriple list" where
  "ignores_of_line l =
     (if has_prefix ''obj:'' l then [IgnoreObj (drop 4 l)]
      else if has_prefix ''src:'' l then [IgnoreFile (drop 4 l)]
      else if has_prefix ''fun:'' l then [IgnoreFun (drop 4 l)]
      else [])"

definition ignores_r_of_line :: "string \<Rightarrow> IgnoreTriple list" where
  "ignores_r_of_line l = (if has_prefix ''fun_r:'' l then [IgnoreFun (drop 6 l)] else [])"

definition ignores_hist_of_line :: "string \<Rightarrow> IgnoreTriple list" where
  "ignores_hist_of_line l = (if has_prefix ''fun_hist:'' l then [IgnoreFun (drop 9 l)] else [])"

text \<open>
  A triple matches a query when each component of the query is empty or matched by the
  triple's pattern; the match is trivial when each non-empty component was matched
  by the pattern \<open>*\<close>.
\<close>

definition triple_matches ::
  "(string \<Rightarrow> string \<Rightarrow> bool) \<Rightarrow> IgnoreTriple \<Rightarrow> string \<Rightarrow> string \<Rightarrow> string \<Rightarrow> bool" where
  "triple_matches sm t fn ob fl =
     ((fn = [] \<or> sm (t_fun t) fn) \<and> (ob = [] \<or> sm (t_obj t) ob) \<and> (fl = [] \<or> sm (t_file t) fl))"

definition triple_trivial :: "IgnoreTriple \<Rightarrow> string \<Rightarrow> string \<Rightarrow> string \<Rightarrow> bool" where
  "triple_trivial t fn ob fl =
     ((fn = [] \<or> t_fun t = ''*'') \<and> (ob = [] \<or> t_obj t = ''*'') \<and> (fl = [] \<or> t_file t = ''*''))"

section \<open>Tool exit (tsan/ts\_valgrind.cc)\<close>




section \<open>Runtime definitions (v2/tsan/tsan\_defs.h)\<close>

type_synonym uptr = "64 word"
type_synonym u64 = "64 word"

definition kTidBits :: nat where
  "kTidBits = 16"

definition kMaxTid :: int where
  "kMaxTid = 2 ^ kTidBits"

text \<open>\<open>kShadowCnt\<close> is 8 unless \<open>TSAN_SHADOW_COUNT\<close> is given; \<open>kShadowCell\<close> is 8.\<close>

definition kShadowCnt :: uptr where
  "kShadowCnt = 8"

definition kShadowCell :: uptr where
  "kShadowCell = 8"

definition kThreadQuarantineSize :: int where
  "kThreadQuarantineSize = 100"

text \<open>
  \<open>Printf\<close> calls are kept as the format with its arguments. The process can end in three
  ways: \<open>Die()\<close> after a \<open>Printf\<close>, a failed \<open>CHECK\<close> (with the text of the condition), and
  a null pointer dereference or an index out of the array, which the C++ leaves undefined.
\<close>

datatype printf_arg = ArgInt int | ArgPtr uptr | ArgStr string

type_synonym printf = "string \<times> printf_arg list"

text \<open>
  Modelled from the spec: the fatal ends of the runtime (\<open>Die\<close> and \<open>CheckFailed\<close> are
  declared, not defined, in the sources): print and abort, assertion failure.
\<close>

datatype rtl_fatal = Died printf | CheckFailed string | Undefined

text \<open>
  \<open>CHECK_IMPL(c1, op, c2)\<close> casts both sides to \<open>u64\<close> and compares them; it is the same
  in debug and release builds (only the \<open>DCHECK\<close> family is empty unless \<open>TSAN_DEBUG\<close>).
  When the comparison fails it calls \<open>CheckFailed\<close>, which tsan\_defs.h declares and does
  not define; as the spec has it, an assertion failure ends the process, and the functions below
  return \<open>CheckFailed\<close> with the text of the condition.
\<close>

definition u64_of_int :: "int \<Rightarrow> u64" where
  "u64_of_int i = word_of_int i"

definition CHECK_GT :: "int \<Rightarrow> int \<Rightarrow> bool" where
  "CHECK_GT a b = (u64_of_int a > u64_of_int b)"

definition CHECK_GE :: "int \<Rightarrow> int \<Rightarrow> bool" where
  "CHECK_GE a b = (u64_of_int a \<ge> u64_of_int b)"

definition CHECK_LT :: "int \<Rightarrow> int \<Rightarrow> bool" where
  "CHECK_LT a b = (u64_of_int a < u64_of_int b)"

section \<open>Thread state (types of tsan\_rtl.h, as the code under v2/tsan uses them)\<close>

datatype ThreadStatus =
  ThreadStatusInvalid | ThreadStatusCreated | ThreadStatusRunning
  | ThreadStatusFinished | ThreadStatusDead

text \<open>
  Modelled from the spec: \<open>FastState\<close> (tsan\_rtl.h is not among the sources), the tid, the
  epoch and the ignore bit of a thread.
\<close>

record FastState =
  fs_tid :: int
  fs_epoch :: u64
  fs_ignore_bit :: bool

text \<open>
  Modelled from the spec: \<open>Shadow\<close> (tsan\_rtl.h), a \<open>FastState\<close> with the offset within
  the cell, the log of the access size and the write flag.
\<close>

record Shadow = FastState +
  sh_addr0 :: uptr
  sh_size_log :: nat
  sh_is_write :: bool

text \<open>
  Modelled from the spec: \<open>FastState::IncrementEpoch\<close> (tsan\_rtl.h): the epoch is a counter
  that is incremented.
\<close>

definition IncrementEpoch :: "FastState \<Rightarrow> FastState" where
  "IncrementEpoch s = s\<lparr>fs_epoch := fs_epoch s + 1\<rparr>"

text \<open>Modelled from the spec: \<open>FastState::GetIgnoreBit\<close> (tsan\_rtl.h) reads the ignore bit.\<close>

definition GetIgnoreBit :: "FastState \<Rightarrow> bool" where
  "GetIgnoreBit s = fs_ignore_bit s"

text \<open>
  Modelled from the spec: the constructor \<open>Shadow(fast_state)\<close> (tsan\_rtl.h): the fast state
  with offset, size log and write flag not yet set.
\<close>

definition Shadow_of :: "FastState \<Rightarrow> Shadow" where
  "Shadow_of s = \<lparr>fs_tid = fs_tid s, fs_epoch = fs_epoch s, fs_ignore_bit = fs_ignore_bit s,
                  sh_addr0 = 0, sh_size_log = 0, sh_is_write = False\<rparr>"

text \<open>Modelled from the spec: \<open>Shadow::SetWrite\<close> (tsan\_rtl.h) sets the write flag.\<close>

definition SetWrite :: "bool \<Rightarrow> Shadow \<Rightarrow> Shadow" where
  "SetWrite is_write s = s\<lparr>sh_is_write := is_write\<rparr>"

text \<open>
  Modelled from the spec: \<open>Shadow::SetAddr0AndSizeLog\<close> (tsan\_rtl.h) sets the offset within
  the cell and the log of the access size.
\<close>

definition SetAddr0AndSizeLog :: "uptr \<Rightarrow> nat \<Rightarrow> Shadow \<Rightarrow> Shadow" where
  "SetAddr0AndSizeLog addr0 kAccessSizeLog s = s\<lparr>sh_addr0 := addr0, sh_size_log := kAccessSizeLog\<rparr>"

text \<open>
  Modelled from the spec: the vector clock \<open>ChunkedClock\<close> (tsan\_clock.h is not among the
  sources), a mapping from tid to epoch.
\<close>

type_synonym ChunkedClock = "int \<Rightarrow> u64"

text \<open>
  Modelled from the spec: the clock that \<open>ChunkedClock::Free\<close> leaves and a new context has:
  no component set.
\<close>

definition clock_empty :: ChunkedClock where
  "clock_empty = (\<lambda>t. 0)"

text \<open>Modelled from the spec: \<open>ChunkedClock::get\<close> (tsan\_clock.h), one component.\<close>

definition clock_get :: "ChunkedClock \<Rightarrow> int \<Rightarrow> u64" where
  "clock_get c t = c t"

text \<open>Modelled from the spec: \<open>ChunkedClock::set\<close> (tsan\_clock.h) sets one component.\<close>

definition clock_set :: "ChunkedClock \<Rightarrow> int \<Rightarrow> u64 \<Rightarrow> ChunkedClock" where
  "clock_set c t e = c(t := e)"

text \<open>
  Modelled from the spec: \<open>ChunkedClock::acquire\<close> (tsan\_clock.h): the element-wise maximum
  with another clock, into the clock itself.
\<close>

definition clock_acquire :: "ChunkedClock \<Rightarrow> ChunkedClock \<Rightarrow> ChunkedClock" where
  "clock_acquire c src = (\<lambda>t. max (c t) (src t))"

text \<open>
  Modelled from the spec: \<open>ChunkedClock::release\<close> (tsan\_clock.h): the element-wise maximum
  into the target clock \<open>dst\<close>, which is the result.
\<close>

definition clock_release :: "ChunkedClock \<Rightarrow> ChunkedClock \<Rightarrow> ChunkedClock" where
  "clock_release c dst = (\<lambda>t. max (dst t) (c t))"

text \<open>
  Modelled from the spec: the events of the trace (tsan\_trace.h is not among the sources): an
  event is a kind with a pc, kept here with its epoch.
\<close>

datatype EventType = EventTypeMop | EventTypeFuncEnter | EventTypeFuncExit

type_synonym Event = "u64 \<times> EventType \<times> uptr"

text \<open>
  Modelled from the spec: \<open>ThreadState\<close> (tsan\_rtl.h), the fields that the thread functions
  use; the shadow stack is the list of pcs below \<open>shadow_stack_pos\<close>, the trace the list of
  its events, oldest first.
\<close>

record ThreadState =
  fast_state :: FastState
  fast_synch_epoch :: u64
  clock :: ChunkedClock
  shadow_stack :: "uptr list"
  trace :: "Event list"
  in_rtl :: int
  stk_addr :: uptr
  stk_size :: uptr
  tls_addr :: uptr
  tls_size :: uptr

text \<open>
  Modelled from the spec: \<open>TraceAddEvent\<close> (tsan\_rtl.h) appends the event to the trace of the
  thread.
\<close>

definition TraceAddEvent :: "ThreadState \<Rightarrow> u64 \<Rightarrow> EventType \<Rightarrow> uptr \<Rightarrow> ThreadState" where
  "TraceAddEvent thr epoch typ addr = thr\<lparr>trace := trace thr @ [(epoch, typ, addr)]\<rparr>"

text \<open>
  \<open>StackTrace::ObtainCurrent\<close> (trunk/v2/tsan/tsan\_sync.cc): the shadow stack up to its
  current position, then \<open>toppc\<close> unless that is zero.
\<close>

definition ObtainCurrent :: "ThreadState \<Rightarrow> uptr \<Rightarrow> uptr list" where
  "ObtainCurrent thr toppc = shadow_stack thr @ (if toppc \<noteq> 0 then [toppc] else [])"

text \<open>
  Modelled from the spec: \<open>ThreadContext\<close> (tsan\_rtl.h), with the fields that the thread
  functions use. A \<open>ThreadContext*\<close> is the index of the slot of \<open>ctx->threads\<close> that holds the object
  (a context is stored once, at \<open>threads[tid]\<close>, and never moved); the null pointer is
  \<open>None\<close>. \<open>tctx_thr\<close> is the tid of the \<open>ThreadState\<close> that the context points to.
\<close>

record ThreadContext =
  tctx_tid :: int
  tctx_uid :: uptr
  tctx_detached :: bool
  tctx_reuse_count :: int
  tctx_sync :: ChunkedClock
  tctx_creation_stack :: "uptr list"
  tctx_epoch0 :: u64
  tctx_epoch1 :: u64
  tctx_status :: ThreadStatus
  tctx_thr :: "int option"
  tctx_dead_next :: "int option"

text \<open>
  Modelled from the spec: the constructor \<open>ThreadContext(tid)\<close>: status Invalid, nothing
  else set (\<open>ThreadCreate\<close> checks the status right after the construction).
\<close>

definition ThreadContext_new :: "int \<Rightarrow> ThreadContext" where
  "ThreadContext_new tid =
     \<lparr>tctx_tid = tid, tctx_uid = 0, tctx_detached = False, tctx_reuse_count = 0,
      tctx_sync = clock_empty, tctx_creation_stack = [], tctx_epoch0 = 0, tctx_epoch1 = 0,
      tctx_status = ThreadStatusInvalid, tctx_thr = None, tctx_dead_next = None\<rparr>"

section \<open>Reports (trunk/v2/tsan/tsan\_report.cc)\<close>

text \<open>
  Modelled from the spec: the report descriptor (tsan\_report.h is not among the sources), with
  the fields that \<open>PrintReport\<close> and \<open>ThreadFinalize\<close> use; counted arrays
  (\<open>nmop\<close>/\<open>mop\<close>, \<open>nthread\<close>/\<open>thread\<close>, \<open>cnt\<close>/\<open>entry\<close>) are lists.
\<close>

datatype ReportType = ReportTypeRace | ReportTypeThreadLeak

record ReportStackEntry =
  ent_pc :: uptr
  ent_func :: string
  ent_file :: string
  ent_line :: int

type_synonym ReportStack = "ReportStackEntry list"

record ReportMop =
  mop_tid :: int
  mop_addr :: uptr
  mop_size :: int
  mop_write :: bool
  mop_stack :: ReportStack

datatype ReportLocationType = ReportLocationGlobal | ReportLocationHeap | ReportLocationStack

record ReportLocation =
  loc_type :: ReportLocationType
  loc_addr :: uptr
  loc_size :: int
  loc_tid :: int
  loc_name :: string
  loc_stack :: ReportStack

record ReportThread =
  rt_id :: int
  rt_running :: bool
  rt_stack :: ReportStack

record ReportDesc =
  rep_typ :: ReportType
  rep_mop :: "ReportMop list"
  rep_loc :: "ReportLocation option"
  rep_thread :: "ReportThread list"





section \<open>The thread registry (v2/tsan/tsan\_rtl\_thread.cc)\<close>

text \<open>
  Modelled from the spec: \<open>Context\<close> (tsan\_rtl.h), the fields that the thread functions touch. \<open>reports\<close> keeps, in order, the
  descriptors that were handed to \<open>PrintReport\<close>; \<open>printed\<close> keeps what was printed.
\<close>

record Context =
  threads :: "int \<Rightarrow> ThreadContext option"
  thread_seq :: int
  dead_list_size :: int
  dead_list_head :: "int option"
  dead_list_tail :: "int option"
  nreported :: int
  reports :: "ReportDesc list"
  printed :: "printf list"



text \<open>
  \<open>ThreadDead\<close>: the context \<open>p\<close> becomes Dead and goes to the tail of the dead list.
\<close>

definition ThreadDead :: "ThreadState \<Rightarrow> int \<Rightarrow> Context \<Rightarrow> rtl_fatal + Context" where
  "ThreadDead thr p ctx =
     (if \<not> CHECK_GT (in_rtl thr) 0 then Inl (CheckFailed ''(thr->in_rtl) > (0)'')
      else case threads ctx p of
        None \<Rightarrow> Inl Undefined
      | Some tctx \<Rightarrow>
          if \<not> (tctx_status tctx = ThreadStatusRunning \<or> tctx_status tctx = ThreadStatusFinished)
          then Inl (CheckFailed
            ''((tctx->status == ThreadStatusRunning || tctx->status == ThreadStatusFinished)) != (0)'')
          else
            let tctx1 = tctx\<lparr>tctx_status := ThreadStatusDead, tctx_uid := 0,
                              tctx_sync := clock_empty, tctx_dead_next := None\<rparr>;
                threads1 = (threads ctx)(p \<mapsto> tctx1)
            in if dead_list_size ctx = 0 then
                 Inr (ctx\<lparr>threads := threads1, dead_list_head := Some p,
                          dead_list_tail := Some p, dead_list_size := dead_list_size ctx + 1\<rparr>)
               else (case dead_list_tail ctx of
                   None \<Rightarrow> Inl Undefined
                 | Some q \<Rightarrow> (case threads1 q of
                     None \<Rightarrow> Inl Undefined
                   | Some last_tctx \<Rightarrow>
                       Inr (ctx\<lparr>threads := threads1(q \<mapsto> last_tctx\<lparr>tctx_dead_next := Some p\<rparr>),
                                dead_list_tail := Some p,
                                dead_list_size := dead_list_size ctx + 1\<rparr>))))"

text \<open>
  \<open>ThreadCreate\<close>. The first part chooses the context: the head of the dead list, or a
  new context at \<open>thread_seq\<close>. It gives the pointer (the slot), the tid and the new
  \<open>Context\<close>.
\<close>

definition thread_limit_message :: printf where
  "thread_limit_message =
     (''ThreadSanitizer: %d thread limit exceeded. Dying.'' @ [CHR 0x0A], [ArgInt kMaxTid])"

definition ThreadCreate_choose :: "Context \<Rightarrow> rtl_fatal + (int \<times> int \<times> Context)" where
  "ThreadCreate_choose ctx =
     (if dead_list_size ctx > kThreadQuarantineSize \<or> thread_seq ctx \<ge> kMaxTid then
        if dead_list_size ctx = 0 then Inl (Died thread_limit_message)
        else (case dead_list_head ctx of
            None \<Rightarrow> Inl Undefined
          | Some p \<Rightarrow> (case threads ctx p of
              None \<Rightarrow> Inl Undefined
            | Some tctx \<Rightarrow>
                let ctx1 = ctx\<lparr>dead_list_head := tctx_dead_next tctx,
                                dead_list_size := dead_list_size ctx - 1\<rparr>
                in if dead_list_size ctx1 = 0 \<and> tctx_dead_next tctx \<noteq> None
                   then Inl (CheckFailed ''(tctx->dead_next) == (0)'')
                   else
                     let ctx2 = (if dead_list_size ctx1 = 0 then ctx1\<lparr>dead_list_head := None\<rparr>
                                 else ctx1)
                     in if tctx_status tctx \<noteq> ThreadStatusDead
                        then Inl (CheckFailed ''(tctx->status) == (ThreadStatusDead)'')
                        else
                          let tctx1 = tctx\<lparr>tctx_status := ThreadStatusInvalid,
                                            tctx_reuse_count := tctx_reuse_count tctx + 1\<rparr>
                          in Inr (p, tctx_tid tctx,
                                  ctx2\<lparr>threads := (threads ctx2)(p \<mapsto> tctx1)\<rparr>)))
      else
        let tid = thread_seq ctx;
            ctx1 = ctx\<lparr>thread_seq := thread_seq ctx + 1\<rparr>
        in if tid < 0 then Inl Undefined
           else Inr (tid, tid, ctx1\<lparr>threads := (threads ctx1)(tid \<mapsto> ThreadContext_new tid)\<rparr>))"

text \<open>The body of \<open>if (tid)\<close> in \<open>ThreadCreate\<close>, on the creating thread and the context.\<close>

definition ThreadCreate_sync ::
  "ThreadState \<Rightarrow> uptr \<Rightarrow> ThreadContext \<Rightarrow> ThreadState \<times> ThreadContext" where
  "ThreadCreate_sync thr pc tctx =
     (let thr1 = thr\<lparr>fast_state := IncrementEpoch (fast_state thr)\<rparr>;
          thr2 = TraceAddEvent thr1 (fs_epoch (fast_state thr1)) EventTypeMop 0;
          thr3 = thr2\<lparr>clock := clock_set (clock thr2) (fs_tid (fast_state thr2))
                                   (fs_epoch (fast_state thr2))\<rparr>;
          thr4 = thr3\<lparr>fast_synch_epoch := fs_epoch (fast_state thr3)\<rparr>;
          tctx2 = tctx\<lparr>tctx_sync := clock_release (clock thr4) (tctx_sync tctx)\<rparr>;
          tctx3 = tctx2\<lparr>tctx_creation_stack := ObtainCurrent thr4 pc\<rparr>
      in (thr4, tctx3))"

definition ThreadCreate ::
  "ThreadState \<Rightarrow> uptr \<Rightarrow> uptr \<Rightarrow> bool \<Rightarrow> Context \<Rightarrow> rtl_fatal + (int \<times> ThreadState \<times> Context)" where
  "ThreadCreate thr pc uid detached ctx =
     (if \<not> CHECK_GT (in_rtl thr) 0 then Inl (CheckFailed ''(thr->in_rtl) > (0)'')
      else case ThreadCreate_choose ctx of
        Inl e \<Rightarrow> Inl e
      | Inr (p, tid, ctx1) \<Rightarrow>
         (case threads ctx1 p of
            None \<Rightarrow> Inl (CheckFailed ''(tctx) != (0)'')
          | Some tctx \<Rightarrow>
              if \<not> CHECK_GE tid 0 then Inl (CheckFailed ''(tid) >= (0)'')
              else if \<not> CHECK_LT tid kMaxTid then Inl (CheckFailed ''(tid) < (kMaxTid)'')
              else if tctx_status tctx \<noteq> ThreadStatusInvalid
                then Inl (CheckFailed ''(tctx->status) == (ThreadStatusInvalid)'')
              else
                let tctx1 = tctx\<lparr>tctx_status := ThreadStatusCreated, tctx_thr := None,
                                  tctx_uid := uid, tctx_detached := detached\<rparr>
                in case (if tid \<noteq> 0 then ThreadCreate_sync thr pc tctx1 else (thr, tctx1)) of
                  (thr', tctx') \<Rightarrow>
                    Inr (tid, thr', ctx1\<lparr>threads := (threads ctx1)(p \<mapsto> tctx')\<rparr>)))"

text \<open>
  Modelled from the spec: the constructor of \<open>ThreadState\<close> (tsan\_rtl.h is not among the
  sources): the fast state is the tid with the given epoch and no ignore bit, the clock,
  the shadow stack and the trace are empty, the stack and tls bounds are stored. The
  counter \<open>in_rtl\<close> belongs to the entry bracket of the event handler and is kept.
\<close>

definition ThreadState_new ::
  "int \<Rightarrow> u64 \<Rightarrow> uptr \<Rightarrow> uptr \<Rightarrow> uptr \<Rightarrow> uptr \<Rightarrow> int \<Rightarrow> ThreadState" where
  "ThreadState_new tid epoch stk_a stk_s tls_a tls_s rtl =
     \<lparr>fast_state = \<lparr>fs_tid = tid, fs_epoch = epoch, fs_ignore_bit = False\<rparr>,
      fast_synch_epoch = 0, clock = clock_empty, shadow_stack = [], trace = [],
      in_rtl = rtl, stk_addr = stk_a, stk_size = stk_s, tls_addr = tls_a, tls_size = tls_s\<rparr>"

text \<open>
  \<open>ThreadStart\<close>. \<open>GetThreadStackAndTls\<close> is a platform function; its four results are
  the first parameter. \<open>MemoryResetRange\<close> is not among the sources; its calls (pc,
  address, size) are returned in order. An index outside \<open>ctx->threads\<close> is undefined.
\<close>

definition ThreadStart ::
  "uptr \<times> uptr \<times> uptr \<times> uptr \<Rightarrow> ThreadState \<Rightarrow> int \<Rightarrow> Context
     \<Rightarrow> rtl_fatal + (ThreadState \<times> Context \<times> (uptr \<times> uptr \<times> uptr) list)" where
  "ThreadStart stack_and_tls thr tid ctx =
     (if \<not> CHECK_GT (in_rtl thr) 0 then Inl (CheckFailed ''(thr->in_rtl) > (0)'')
      else case stack_and_tls of (stk_a, stk_s, tls_a, tls_s) \<Rightarrow>
        let resets = (if stk_a \<noteq> 0 \<and> stk_s \<noteq> 0 then [(1, stk_a, stk_s)] else [])
                   @ (if tls_a \<noteq> 0 \<and> tls_s \<noteq> 0 then [(2, tls_a, tls_s)] else [])
        in if tid < 0 \<or> kMaxTid \<le> tid then Inl Undefined
           else (case threads ctx tid of
               None \<Rightarrow> Inl (CheckFailed ''(tctx) != (0)'')
             | Some tctx \<Rightarrow>
                 if tctx_status tctx \<noteq> ThreadStatusCreated
                 then Inl (CheckFailed ''(tctx->status) == (ThreadStatusCreated)'')
                 else
                   let e0 = tctx_epoch1 tctx + 1;
                       tctx1 = tctx\<lparr>tctx_status := ThreadStatusRunning, tctx_epoch0 := e0,
                                     tctx_epoch1 := - 1, tctx_thr := Some tid\<rparr>;
                       thr1 = ThreadState_new tid e0 stk_a stk_s tls_a tls_s (in_rtl thr);
                       thr2 = thr1\<lparr>fast_synch_epoch := e0\<rparr>;
                       thr3 = thr2\<lparr>clock := clock_set (clock thr2) tid e0\<rparr>;
                       thr4 = thr3\<lparr>clock := clock_acquire (clock thr3) (tctx_sync tctx1)\<rparr>
                   in Inr (thr4, ctx\<lparr>threads := (threads ctx)(tid \<mapsto> tctx1)\<rparr>, resets)))"

section \<open>Range accesses (v2/tsan/tsan\_rtl\_thread.cc)\<close>

text \<open>
  What the platform and the build give: \<open>TSAN_DEBUG\<close>, the predicates \<open>IsAppMem\<close> and
  \<open>IsShadowMem\<close>, and \<open>MemToShadow\<close>. A \<open>u64*\<close> into the shadow is a byte address, so
  adding \<open>n\<close> to it adds \<open>8 * n\<close>.
\<close>

record platform =
  TSAN_DEBUG :: bool
  IsAppMem :: "uptr \<Rightarrow> bool"
  IsShadowMem :: "uptr \<Rightarrow> bool"
  MemToShadow :: "uptr \<Rightarrow> uptr"

text \<open>
  \<open>MemoryAccessImpl\<close> is not among the sources: the calls that \<open>MemoryAccessRange\<close> makes
  are returned in order, each with its arguments.
\<close>

record MopCall =
  mc_addr :: uptr
  mc_size_log :: nat
  mc_is_write :: bool
  mc_fast_state :: FastState
  mc_shadow_mem :: uptr
  mc_cur :: Shadow

definition access_call :: "FastState \<Rightarrow> bool \<Rightarrow> uptr \<Rightarrow> uptr \<Rightarrow> uptr \<Rightarrow> nat \<Rightarrow> MopCall" where
  "access_call fs is_write shadow_mem addr addr0 kAccessSizeLog =
     \<lparr>mc_addr = addr, mc_size_log = kAccessSizeLog, mc_is_write = is_write,
      mc_fast_state = fs, mc_shadow_mem = shadow_mem,
      mc_cur = SetAddr0AndSizeLog addr0 kAccessSizeLog (SetWrite is_write (Shadow_of fs))\<rparr>"

text \<open>The checks under \<open>#if TSAN_DEBUG\<close>: the first that fails ends the process.\<close>

definition range_debug_checks :: "platform \<Rightarrow> uptr \<Rightarrow> uptr \<Rightarrow> uptr \<Rightarrow> rtl_fatal option" where
  "range_debug_checks pf addr sz shadow_mem =
     (if \<not> TSAN_DEBUG pf then None
      else if \<not> IsAppMem pf addr then Some (CheckFailed ''((IsAppMem(addr))) != (0)'')
      else if \<not> IsAppMem pf (addr + sz - 1)
        then Some (CheckFailed ''((IsAppMem(addr + size - 1))) != (0)'')
      else if \<not> IsShadowMem pf shadow_mem
        then Some (CheckFailed ''((IsShadowMem((uptr)shadow_mem))) != (0)'')
      else if \<not> IsShadowMem pf (shadow_mem + 8 * (sz * kShadowCnt div 8) - 8)
        then Some (CheckFailed
          ''((IsShadowMem((uptr)(shadow_mem + size * kShadowCnt / 8 - 1)))) != (0)'')
      else None)"

text \<open>The three loops; each returns what it leaves in \<open>addr\<close>, \<open>size\<close> (here \<open>sz\<close>) and \<open>shadow_mem\<close>.\<close>

function range_head ::
  "FastState \<Rightarrow> bool \<Rightarrow> uptr \<Rightarrow> uptr \<Rightarrow> uptr \<Rightarrow> MopCall list \<Rightarrow> uptr \<times> uptr \<times> MopCall list" where
  "range_head fs is_write shadow_mem addr sz calls =
     (if addr mod kShadowCell \<noteq> 0 \<and> sz \<noteq> 0 then
        range_head fs is_write shadow_mem (addr + 1) (sz - 1)
          (calls @ [access_call fs is_write shadow_mem addr (addr AND (kShadowCell - 1)) 0])
      else (addr, sz, calls))"
  by pat_completeness auto
termination
  by (relation "measure (\<lambda>(fs, is_write, shadow_mem, addr, sz, calls). unat sz)")
    (auto simp: unat_minus_one unat_gt_0)

function range_body ::
  "FastState \<Rightarrow> bool \<Rightarrow> uptr \<Rightarrow> uptr \<Rightarrow> uptr \<Rightarrow> MopCall list
     \<Rightarrow> uptr \<times> uptr \<times> uptr \<times> MopCall list" where
  "range_body fs is_write shadow_mem addr sz calls =
     (if sz \<ge> kShadowCell then
        range_body fs is_write (shadow_mem + 8 * kShadowCnt) (addr + kShadowCell)
          (sz - kShadowCell) (calls @ [access_call fs is_write shadow_mem addr 0 3])
      else (shadow_mem, addr, sz, calls))"
  by pat_completeness auto
termination
  by (relation "measure (\<lambda>(fs, is_write, shadow_mem, addr, sz, calls). unat sz)")
    (auto simp: kShadowCell_def unat_sub word_le_nat_alt)

function range_tail ::
  "FastState \<Rightarrow> bool \<Rightarrow> uptr \<Rightarrow> uptr \<Rightarrow> uptr \<Rightarrow> MopCall list \<Rightarrow> MopCall list" where
  "range_tail fs is_write shadow_mem addr sz calls =
     (if sz \<noteq> 0 then
        range_tail fs is_write shadow_mem (addr + 1) (sz - 1)
          (calls @ [access_call fs is_write shadow_mem addr (addr AND (kShadowCell - 1)) 0])
      else calls)"
  by pat_completeness auto
termination
  by (relation "measure (\<lambda>(fs, is_write, shadow_mem, addr, sz, calls). unat sz)")
    (auto simp: unat_minus_one unat_gt_0)

text \<open>The three loops in sequence, with the step of \<open>shadow_mem\<close> after an unaligned beginning.\<close>

definition range_loops :: "FastState \<Rightarrow> bool \<Rightarrow> uptr \<Rightarrow> uptr \<Rightarrow> uptr \<Rightarrow> MopCall list" where
  "range_loops fs is_write shadow_mem addr sz =
     (let unaligned = (addr mod kShadowCell \<noteq> 0)
      in case range_head fs is_write shadow_mem addr sz [] of
        (addr1, sz1, calls1) \<Rightarrow>
          let shadow_mem1 = (if unaligned then shadow_mem + 8 * kShadowCnt else shadow_mem)
          in case range_body fs is_write shadow_mem1 addr1 sz1 calls1 of
            (shadow_mem2, addr2, sz2, calls2) \<Rightarrow>
              range_tail fs is_write shadow_mem2 addr2 sz2 calls2)"

text \<open>
  \<open>MemoryAccessRange\<close>. The statistics counter (\<open>StatInc\<close>, empty unless
  \<open>TSAN_COLLECT_STATS\<close>) and the debug printing are left out.
\<close>

definition MemoryAccessRange ::
  "platform \<Rightarrow> ThreadState \<Rightarrow> uptr \<Rightarrow> uptr \<Rightarrow> uptr \<Rightarrow> bool
     \<Rightarrow> rtl_fatal + (ThreadState \<times> MopCall list)" where
  "MemoryAccessRange pf thr pc addr sz is_write =
     (if sz = 0 then Inr (thr, [])
      else
        let shadow_mem = MemToShadow pf addr
        in case range_debug_checks pf addr sz shadow_mem of
          Some e \<Rightarrow> Inl e
        | None \<Rightarrow>
            if GetIgnoreBit (fast_state thr) then Inr (thr, [])
            else
              let fs = IncrementEpoch (fast_state thr);
                  thr1 = thr\<lparr>fast_state := fs\<rparr>;
                  thr2 = TraceAddEvent thr1 (fs_epoch fs) EventTypeMop pc
              in Inr (thr2, range_loops fs is_write shadow_mem addr sz))"

declare range_head.simps [simp del] range_body.simps [simp del] range_tail.simps [simp del]

section \<open>The sync table (trunk/v2/tsan/tsan\_sync.cc)\<close>

text \<open>
  Modelled from the spec: \<open>SyncVar\<close> as tsan\_sync.cc uses it (the header under v2/ is an
  earlier revision, built on a \<open>std::map\<close>): the fields that the constructor sets and the
  creation stack; \<open>kInvalidTid\<close> is \<open>None\<close>. The mutex inside the variable is not among
  the sources: the lock operation that \<open>GetAndLock\<close> performs on the returned variable is
  part of the result. A bucket (\<open>p->val\<close> and the \<open>next\<close> pointers) is the list of its
  variables, head first. \<open>kPartCount\<close> is not declared in the sources and is a parameter.
  The slab allocator is not among the sources either: an allocation gives a new variable,
  and the debug check of the slab's element size is left out.
\<close>

record SyncVar =
  sv_addr :: uptr
  sv_owner_tid :: "int option"
  sv_recursion :: int
  sv_is_rw :: bool
  sv_is_recursive :: bool
  sv_is_broken :: bool
  sv_creation_stack :: "uptr list"

definition SyncVar_new :: "uptr \<Rightarrow> SyncVar" where
  "SyncVar_new addr =
     \<lparr>sv_addr = addr, sv_owner_tid = None, sv_recursion = 0, sv_is_rw = False,
      sv_is_recursive = False, sv_is_broken = False, sv_creation_stack = []\<rparr>"

type_synonym SyncTab = "nat \<Rightarrow> SyncVar list"

datatype mtx_op = MtxLock | MtxReadLock

definition PartIdx :: "nat \<Rightarrow> uptr \<Rightarrow> nat" where
  "PartIdx kPartCount addr = unat (drop_bit 3 addr) mod kPartCount"

text \<open>The walk \<open>for (res = p->val; res; res = res->next)\<close> that stops at the address.\<close>

fun bucket_find :: "SyncVar list \<Rightarrow> uptr \<Rightarrow> SyncVar option" where
  "bucket_find [] addr = None"
| "bucket_find (res # next) addr =
     (if sv_addr res = addr then Some res else bucket_find next addr)"

definition lock_in_mode :: "bool \<Rightarrow> mtx_op" where
  "lock_in_mode write_lock = (if write_lock then MtxLock else MtxReadLock)"

text \<open>
  The two critical sections of \<open>GetAndLock\<close>: the first holds the read lock of the part
  and returns on a hit; the second holds the write lock of the part, looks again, and
  allocates and prepends on a miss. Each is one step on the table; \<open>GetAndLock\<close> runs
  one after the other.
\<close>

definition GetAndLock_read :: "nat \<Rightarrow> SyncTab \<Rightarrow> uptr \<Rightarrow> bool \<Rightarrow> (SyncVar \<times> mtx_op) option" where
  "GetAndLock_read kPartCount tab addr write_lock =
     (case bucket_find (tab (PartIdx kPartCount addr)) addr of
        Some res \<Rightarrow> Some (res, lock_in_mode write_lock)
      | None \<Rightarrow> None)"

definition GetAndLock_write ::
  "nat \<Rightarrow> ThreadState \<Rightarrow> uptr \<Rightarrow> SyncTab \<Rightarrow> uptr \<Rightarrow> bool \<Rightarrow> (SyncVar \<times> mtx_op) \<times> SyncTab" where
  "GetAndLock_write kPartCount thr pc tab addr write_lock =
     (let p = PartIdx kPartCount addr
      in case bucket_find (tab p) addr of
           Some res \<Rightarrow> ((res, lock_in_mode write_lock), tab)
         | None \<Rightarrow>
             let res = (SyncVar_new addr)\<lparr>sv_creation_stack := ObtainCurrent thr pc\<rparr>
             in ((res, lock_in_mode write_lock), tab(p := res # tab p)))"

definition GetAndLock ::
  "nat \<Rightarrow> ThreadState \<Rightarrow> uptr \<Rightarrow> SyncTab \<Rightarrow> uptr \<Rightarrow> bool \<Rightarrow> (SyncVar \<times> mtx_op) \<times> SyncTab" where
  "GetAndLock kPartCount thr pc tab addr write_lock =
     (case GetAndLock_read kPartCount tab addr write_lock of
        Some r \<Rightarrow> (r, tab)
      | None \<Rightarrow> GetAndLock_write kPartCount thr pc tab addr write_lock)"

text \<open>\<open>GetAndRemove\<close>: the first variable with the address is unlinked from its bucket.\<close>

fun bucket_unlink :: "SyncVar list \<Rightarrow> uptr \<Rightarrow> SyncVar option \<times> SyncVar list" where
  "bucket_unlink [] addr = (None, [])"
| "bucket_unlink (res # next) addr =
     (if sv_addr res = addr then (Some res, next)
      else (case bucket_unlink next addr of (r, rest) \<Rightarrow> (r, res # rest)))"

definition GetAndRemove :: "nat \<Rightarrow> SyncTab \<Rightarrow> uptr \<Rightarrow> SyncVar option \<times> SyncTab" where
  "GetAndRemove kPartCount tab addr =
     (let p = PartIdx kPartCount addr
      in case bucket_unlink (tab p) addr of (res, rest) \<Rightarrow> (res, tab(p := rest)))"

section \<open>What the specification says, for comparison with the code\<close>




text \<open>
  The quarantine as a queue: \<open>dead_chain th p ds\<close> says that following \<open>dead_next\<close> from
  the pointer \<open>p\<close> visits exactly the slots \<open>ds\<close> and then ends, each of them a Dead
  context that carries its own slot as tid. \<open>quarantine ctx ds\<close> says that the dead list
  of \<open>ctx\<close> holds \<open>ds\<close>, oldest first.
\<close>

fun dead_chain :: "(int \<Rightarrow> ThreadContext option) \<Rightarrow> int option \<Rightarrow> int list \<Rightarrow> bool" where
  "dead_chain th p [] = (p = None)"
| "dead_chain th p (d # ds) =
     (p = Some d \<and>
      (case th d of
         None \<Rightarrow> False
       | Some t \<Rightarrow> tctx_status t = ThreadStatusDead \<and> tctx_tid t = d
                   \<and> dead_chain th (tctx_dead_next t) ds))"

definition quarantine :: "Context \<Rightarrow> int list \<Rightarrow> bool" where
  "quarantine ctx ds =
     (dead_list_size ctx = int (length ds) \<and> distinct ds
      \<and> list_all (\<lambda>d. 0 \<le> d \<and> d < thread_seq ctx) ds
      \<and> 0 \<le> thread_seq ctx \<and> thread_seq ctx \<le> kMaxTid
      \<and> dead_chain (threads ctx) (dead_list_head ctx) ds
      \<and> (ds = [] \<or> dead_list_tail ctx = Some (last ds)))"

text \<open>
  The sync table has at most one variable per address: in every part the addresses
  are distinct and belong to that part. \<open>instances\<close> collects, over all parts, the
  variables with a given address.
\<close>

definition sync_inv :: "nat \<Rightarrow> SyncTab \<Rightarrow> bool" where
  "sync_inv kPartCount tab =
     list_all (\<lambda>p. distinct (map sv_addr (tab p))
                   \<and> list_all (\<lambda>v. PartIdx kPartCount (sv_addr v) = p) (tab p))
       [0..<kPartCount]"

definition instances :: "nat \<Rightarrow> SyncTab \<Rightarrow> uptr \<Rightarrow> SyncVar list" where
  "instances kPartCount tab a =
     concat (map (\<lambda>p. filter (\<lambda>v. sv_addr v = a) (tab p)) [0..<kPartCount])"

text \<open>
  The decomposition of a range as the specification words it. \<open>head_len\<close> is the
  number of bytes before the first cell boundary (none when the address is aligned,
  and never more than the size). A piece carries the write flag and the offset of its
  address within its cell; a byte piece has size log 0 and a cell piece size log 3.
  The shadow pointer of the prefix is that of the start address, and it moves by one
  shadow cell (\<open>kShadowCnt\<close> words of 8 bytes) per application cell.
\<close>

definition head_len :: "uptr \<Rightarrow> uptr \<Rightarrow> nat" where
  "head_len addr sz = (if unat addr mod 8 = 0 then 0 else min (unat sz) (8 - unat addr mod 8))"

definition byte_piece :: "FastState \<Rightarrow> bool \<Rightarrow> uptr \<Rightarrow> uptr \<Rightarrow> MopCall" where
  "byte_piece fs is_write shadow_mem a = access_call fs is_write shadow_mem a (a AND 7) 0"

definition cell_piece :: "FastState \<Rightarrow> bool \<Rightarrow> uptr \<Rightarrow> uptr \<Rightarrow> MopCall" where
  "cell_piece fs is_write shadow_mem a = access_call fs is_write shadow_mem a (a AND 7) 3"

definition range_pieces :: "FastState \<Rightarrow> bool \<Rightarrow> uptr \<Rightarrow> uptr \<Rightarrow> uptr \<Rightarrow> MopCall list" where
  "range_pieces fs is_write shadow_mem addr sz =
     (let h = head_len addr sz;
          m = (unat sz - h) div 8;
          t = (unat sz - h) mod 8;
          shadow_mem1 = (if unat addr mod 8 = 0 then shadow_mem else shadow_mem + 64)
      in map (\<lambda>i. byte_piece fs is_write shadow_mem (addr + of_nat i)) [0..<h]
       @ map (\<lambda>j. cell_piece fs is_write (shadow_mem1 + 64 * of_nat j)
                    (addr + of_nat (h + 8 * j))) [0..<m]
       @ map (\<lambda>k. byte_piece fs is_write (shadow_mem1 + 64 * of_nat m)
                    (addr + of_nat (h + 8 * m + k))) [0..<t])"

section \<open>Concrete states for the examples\<close>

definition ex_thr :: ThreadState where
  "ex_thr =
     \<lparr>fast_state = \<lparr>fs_tid = 0, fs_epoch = 5, fs_ignore_bit = False\<rparr>,
      fast_synch_epoch = 0, clock = clock_empty, shadow_stack = [0x400100, 0x400200],
      trace = [], in_rtl = 1, stk_addr = 0, stk_size = 0, tls_addr = 0, tls_size = 0\<rparr>"

definition ex_ctx_init :: Context where
  "ex_ctx_init =
     \<lparr>threads = (\<lambda>i. None), thread_seq = 0, dead_list_size = 0, dead_list_head = None,
      dead_list_tail = None, nreported = 0, reports = [], printed = []\<rparr>"

text \<open>A context in slot \<open>i\<close> with the given status and detached flag.\<close>

definition ex_tctx :: "int \<Rightarrow> ThreadStatus \<Rightarrow> bool \<Rightarrow> ThreadContext" where
  "ex_tctx i st det =
     (ThreadContext_new i)\<lparr>tctx_status := st, tctx_detached := det, tctx_uid := 100 + word_of_int i,
        tctx_creation_stack := [0x400100, 0x400200, 0x400300]\<rparr>"

text \<open>The main thread and thread 1, both running.\<close>

definition ex_ctx_running :: Context where
  "ex_ctx_running =
     ex_ctx_init\<lparr>threads := (\<lambda>i. None)(0 \<mapsto> ex_tctx 0 ThreadStatusRunning False,
                                          1 \<mapsto> ex_tctx 1 ThreadStatusRunning False),
                 thread_seq := 2\<rparr>"



text \<open>
  A quarantine of exactly 100 dead contexts, in the slots 1 to 100, each pointing to the
  next; thread 0 is running and \<open>thread_seq\<close> is 101.
\<close>

definition ex_dead :: "int \<Rightarrow> int option \<Rightarrow> ThreadContext" where
  "ex_dead i nxt = (ThreadContext_new i)\<lparr>tctx_status := ThreadStatusDead, tctx_dead_next := nxt\<rparr>"

definition ex_ctx_q100 :: Context where
  "ex_ctx_q100 =
     \<lparr>threads = (\<lambda>i. if i = 0 then Some (ex_tctx 0 ThreadStatusRunning False)
                    else if 1 \<le> i \<and> i < 100 then Some (ex_dead i (Some (i + 1)))
                    else if i = 100 then Some (ex_dead 100 None)
                    else None),
      thread_seq = 101, dead_list_size = 100, dead_list_head = Some 1,
      dead_list_tail = Some 100, nreported = 0, reports = [], printed = []\<rparr>"

text \<open>
  The sequence counter at its limit: once with the dead list holding the slots 5 and 3
  (5 died first), once with an empty dead list.
\<close>

definition ex_ctx_full :: Context where
  "ex_ctx_full =
     \<lparr>threads = (\<lambda>i. if i = 5 then Some (ex_dead 5 (Some 3))
                    else if i = 3 then Some (ex_dead 3 None)
                    else None),
      thread_seq = 65536, dead_list_size = 2, dead_list_head = Some 5,
      dead_list_tail = Some 3, nreported = 0, reports = [], printed = []\<rparr>"

definition ex_ctx_limit :: Context where
  "ex_ctx_limit = ex_ctx_init\<lparr>thread_seq := 65536\<rparr>"

text \<open>An empty sync table, and the variable that the first lookup of \<open>0x1008\<close> creates.\<close>

definition ex_tab :: SyncTab where
  "ex_tab = (\<lambda>p. [])"

definition ex_var :: SyncVar where
  "ex_var = (SyncVar_new 0x1008)\<lparr>sv_creation_stack := [0x400100, 0x400200, 0x400500]\<rparr>"

text \<open>A release build on a platform whose shadow starts at \<open>0x100000000000\<close>.\<close>

definition ex_pf :: platform where
  "ex_pf = \<lparr>TSAN_DEBUG = False, IsAppMem = (\<lambda>a. True), IsShadowMem = (\<lambda>a. True),
            MemToShadow = (\<lambda>a. 0x100000000000 + 64 * (a div 8))\<rparr>"

definition ex_fs :: FastState where
  "ex_fs = \<lparr>fs_tid = 0, fs_epoch = 6, fs_ignore_bit = False\<rparr>"

section \<open>Properties of the ignore lists\<close>

lemma split_loop_no_newline:
  "CHR 0x0A \<notin> set s \<Longrightarrow> split_loop s cur ic lines = lines"
  by (induction s arbitrary: cur ic) auto

lemma split_loop_in_comment:
  "CHR 0x0A \<notin> set l \<Longrightarrow>
   split_loop (l @ CHR 0x0A # rest) cur True lines =
     split_loop rest [] False (if cur \<noteq> [] then lines @ [cur] else lines)"
  by (induction l arbitrary: cur) auto

lemma split_loop_line:
  "CHR 0x0A \<notin> set l \<Longrightarrow>
   split_loop (l @ CHR 0x0A # rest) cur False lines =
     split_loop rest [] False
       (if cur @ strip_line l \<noteq> [] then lines @ [cur @ strip_line l] else lines)"
proof (induction l arbitrary: cur)
  case Nil
  then show ?case by (simp add: strip_line_def)
next
  case (Cons c l)
  then have nl: "CHR 0x0A \<notin> set l" and c: "c \<noteq> CHR 0x0A" by auto
  show ?case
  proof (cases "c = CHR ''#''")
    case True
    then show ?thesis using nl by (simp add: strip_line_def split_loop_in_comment)
  next
    case False
    then show ?thesis using c Cons.IH [OF nl] by (simp add: strip_line_def)
  qed
qed

lemma split_loop_out: "split_loop s cur ic (ls @ ms) = ls @ split_loop s cur ic ms"
  by (induction s cur ic ms rule: split_loop.induct) auto

lemma split_loop_after_newline:
  "split_loop (s @ CHR 0x0A # t) cur ic ls =
     split_loop t [] False (split_loop (s @ [CHR 0x0A]) cur ic ls)"
  by (induction s cur ic ls rule: split_loop.induct) auto

lemma has_prefix_iff: "has_prefix p l = (\<exists>r. l = p @ r)"
  unfolding has_prefix_def by (metis append_eq_conv_conj append_take_drop_id)

lemma Cut_has_prefix:
  "CutStringPrefixIfPresent l p = (if has_prefix p l then Some (drop (length p) l) else None)"
  by (simp add: CutStringPrefixIfPresent_def has_prefix_def)

lemma ReadIgnoreLine_eq:
  "ReadIgnoreLine l g =
     (if known_line l then
        Some \<lparr>ignores = ignores g @ ignores_of_line l,
              ignores_r = ignores_r g @ ignores_r_of_line l,
              ignores_hist = ignores_hist g @ ignores_hist_of_line l\<rparr>
      else None)"
  by (auto simp: ReadIgnoreLine_def Cut_has_prefix known_line_def has_prefix_iff
      ignores_of_line_def ignores_r_of_line_def ignores_hist_of_line_def)

lemma read_lines_eq:
  "read_lines ls g =
     (case find (\<lambda>l. \<not> known_line l) ls of
        Some bad \<Rightarrow> Inl (Fatal (ignore_error_text bad))
      | None \<Rightarrow> Inr \<lparr>ignores = ignores g @ concat (map ignores_of_line ls),
              ignores_r = ignores_r g @ concat (map ignores_r_of_line ls),
              ignores_hist = ignores_hist g @ concat (map ignores_hist_of_line ls)\<rparr>)"
  by (induction ls arbitrary: g) (simp_all add: ReadIgnoreLine_eq split: option.splits)

lemma known_line_one_entry:
  "known_line l \<Longrightarrow>
   length (ignores_of_line l) + length (ignores_r_of_line l) + length (ignores_hist_of_line l) = 1"
  by (auto simp: known_line_def has_prefix_iff
      ignores_of_line_def ignores_r_of_line_def ignores_hist_of_line_def)

text \<open>
  What \<open>ReadIgnoresFromString\<close> does with the lines that the splitter hands over (the
  pieces of the text that end with a newline and are not empty after stripping): the
  first of them that begins with none of \<open>obj:\<close>, \<open>src:\<close>, \<open>fun:\<close>, \<open>fun_r:\<close>,
  \<open>fun_hist:\<close> ends the process after the offending line has been printed; when there
  is no such line, every line adds exactly one entry, to the list of its directive.
\<close>

lemma ReadIgnoresFromString_lines:
  "ReadIgnoresFromString s g =
     (case find (\<lambda>l. \<not> known_line l) (SplitStringIntoLinesAndRemoveBlanksAndComments s []) of
        Some bad \<Rightarrow> Inl (Fatal (ignore_error_text bad))
      | None \<Rightarrow>
          Inr \<lparr>ignores = ignores g @
                  concat (map ignores_of_line (SplitStringIntoLinesAndRemoveBlanksAndComments s [])),
               ignores_r = ignores_r g @
                  concat (map ignores_r_of_line (SplitStringIntoLinesAndRemoveBlanksAndComments s [])),
               ignores_hist = ignores_hist g @
                  concat (map ignores_hist_of_line
                    (SplitStringIntoLinesAndRemoveBlanksAndComments s []))\<rparr>)"
  by (simp add: ReadIgnoresFromString_def read_lines_eq)

text \<open>
  C7. Every non-blank non-comment line of the text has to begin with one of the five
  prefixes and add one entry, and a line with an unknown prefix has to be a fatal parse
  error. The code does this for a line that ends with a newline and misses the last
  line of a text that does not end with one: \<open>race:b\<close> followed by a newline ends the
  process with the line printed, \<open>race:b\<close> alone is read without any error; \<open>fun:main\<close>
  followed by a newline adds its entry, \<open>fun:main\<close> alone adds nothing.
\<close>

theorem ReadIgnoresFromString_unterminated_line:
  "ReadIgnoresFromString (''race:b'' @ [CHR 0x0A]) \<lparr>ignores = [], ignores_r = [], ignores_hist = []\<rparr>
     = Inl (Fatal (''Error reading ignore file line:'' @ [CHR 0x0A] @ ''race:b'' @ [CHR 0x0A]))
   \<and> ReadIgnoresFromString ''race:b'' \<lparr>ignores = [], ignores_r = [], ignores_hist = []\<rparr>
     = Inr \<lparr>ignores = [], ignores_r = [], ignores_hist = []\<rparr>
   \<and> ReadIgnoresFromString (''fun:main'' @ [CHR 0x0A])
       \<lparr>ignores = [], ignores_r = [], ignores_hist = []\<rparr>
     = Inr \<lparr>ignores = [IgnoreFun ''main''], ignores_r = [], ignores_hist = []\<rparr>
   \<and> ReadIgnoresFromString ''fun:main'' \<lparr>ignores = [], ignores_r = [], ignores_hist = []\<rparr>
     = Inr \<lparr>ignores = [], ignores_r = [], ignores_hist = []\<rparr>
   \<and> ReadIgnoresFromString (''fun:a'' @ [CHR 0x0A] @ ''race:b'')
       \<lparr>ignores = [], ignores_r = [], ignores_hist = []\<rparr>
     = Inr \<lparr>ignores = [IgnoreFun ''a''], ignores_r = [], ignores_hist = []\<rparr>"
  by (simp add: ReadIgnoresFromString_def SplitStringIntoLinesAndRemoveBlanksAndComments_def
      ReadIgnoreLine_def CutStringPrefixIfPresent_def ignore_error_text_def)

lemma TripleVectorMatchKnown_Cons:
  "TripleVectorMatchKnown sm (t # v) fn ob fl =
     ((triple_matches sm t fn ob fl \<and> \<not> triple_trivial t fn ob fl)
      \<or> TripleVectorMatchKnown sm v fn ob fl)"
  unfolding triple_matches_def triple_trivial_def TripleVectorMatchKnown.simps length_0_conv
  by (cases "TripleVectorMatchKnown sm v fn ob fl") simp_all

text \<open>
  C9. \<open>TripleVectorMatchKnown\<close> is true exactly when some triple of the vector matches
  every non-empty component of the query and not all of these matches are by the
  pattern \<open>*\<close>. So a vector whose triples match only trivially gives false, and the
  triple of three wildcards is trivial for every query.
\<close>

theorem TripleVectorMatchKnown_iff:
  "TripleVectorMatchKnown sm v fn ob fl =
     (\<exists>t \<in> set v. triple_matches sm t fn ob fl \<and> \<not> triple_trivial t fn ob fl)
   \<and> ((\<forall>t \<in> set v. triple_trivial t fn ob fl) \<longrightarrow> \<not> TripleVectorMatchKnown sm v fn ob fl)
   \<and> triple_trivial \<lparr>t_fun = ''*'', t_obj = ''*'', t_file = ''*''\<rparr> fn ob fl
   \<and> \<not> TripleVectorMatchKnown sm [\<lparr>t_fun = ''*'', t_obj = ''*'', t_file = ''*''\<rparr>] fn ob fl"
proof -
  have c1: "TripleVectorMatchKnown sm v fn ob fl =
     (\<exists>t \<in> set v. triple_matches sm t fn ob fl \<and> \<not> triple_trivial t fn ob fl)"
    by (induction v)
      (simp_all only: TripleVectorMatchKnown_Cons TripleVectorMatchKnown.simps(1) list.set
        ball_simps bex_simps)
  have c2: "(\<forall>t \<in> set v. triple_trivial t fn ob fl) \<longrightarrow> \<not> TripleVectorMatchKnown sm v fn ob fl"
    unfolding c1 by blast
  have c3: "triple_trivial \<lparr>t_fun = ''*'', t_obj = ''*'', t_file = ''*''\<rparr> fn ob fl"
    by (simp add: triple_trivial_def)
  have c4: "\<not> TripleVectorMatchKnown sm [\<lparr>t_fun = ''*'', t_obj = ''*'', t_file = ''*''\<rparr>] fn ob fl"
    by simp
  show ?thesis by (intro conjI c1 c2 c3 c4)
qed

theorem TripleVectorMatchKnown_iff_witness:
  "TripleVectorMatchKnown StringMatch [IgnoreFile ''filename.ext'', IgnoreFun ''foo*'']
       ''foobar'' ''obj.o'' []
   \<and> \<not> TripleVectorMatchKnown StringMatch [IgnoreFile ''filename.ext''] ''fun'' ''obj.o'' []
   \<and> triple_trivial (IgnoreFile ''filename.ext'') ''fun'' ''obj.o'' []"
proof (intro conjI)
  have e1: "\<exists>t \<in> set [IgnoreFile ''filename.ext'', IgnoreFun ''foo*''].
      triple_matches StringMatch t ''foobar'' ''obj.o'' [] \<and> \<not> triple_trivial t ''foobar'' ''obj.o'' []"
    by (simp add: IgnoreFile_def IgnoreFun_def triple_trivial_def triple_matches_def)
  show e2: "triple_trivial (IgnoreFile ''filename.ext'') ''fun'' ''obj.o'' []"
    by (simp add: IgnoreFile_def triple_trivial_def)
  show "TripleVectorMatchKnown StringMatch [IgnoreFile ''filename.ext'', IgnoreFun ''foo*'']
       ''foobar'' ''obj.o'' []"
    using TripleVectorMatchKnown_iff
      [of StringMatch "[IgnoreFile ''filename.ext'', IgnoreFun ''foo*'']" "''foobar''" "''obj.o''" "[]"]
      e1 by blast
  show "\<not> TripleVectorMatchKnown StringMatch [IgnoreFile ''filename.ext''] ''fun'' ''obj.o'' []"
    using TripleVectorMatchKnown_iff
      [of StringMatch "[IgnoreFile ''filename.ext'']" "''fun''" "''obj.o''" "[]"] e2 by simp
qed

text \<open>
  C10. The line splitter: a line \<open>l\<close> that ends with a newline contributes
  \<open>strip_line l\<close> (every space and tab deleted, everything from the first \<open>#\<close> on
  discarded, the text before it kept) unless that is empty; a final piece \<open>t\<close> with
  no newline after it contributes nothing, so the text read with and without it gives
  the same lines, the same ignore lists and the same outcome.
\<close>

theorem split_lines_strip_and_drop_last:
  assumes "CHR 0x0A \<notin> set l" and "CHR 0x0A \<notin> set t"
  shows "SplitStringIntoLinesAndRemoveBlanksAndComments (l @ CHR 0x0A # rest) out =
           out @ (if strip_line l = [] then [] else [strip_line l])
               @ SplitStringIntoLinesAndRemoveBlanksAndComments rest []
       \<and> SplitStringIntoLinesAndRemoveBlanksAndComments t out = out
       \<and> SplitStringIntoLinesAndRemoveBlanksAndComments (s @ CHR 0x0A # t) out =
           SplitStringIntoLinesAndRemoveBlanksAndComments (s @ [CHR 0x0A]) out
       \<and> ReadIgnoresFromString t g = Inr g
       \<and> ReadIgnoresFromString (s @ CHR 0x0A # t) g = ReadIgnoresFromString (s @ [CHR 0x0A]) g"
proof -
  have a: "SplitStringIntoLinesAndRemoveBlanksAndComments (l @ CHR 0x0A # rest) out =
           out @ (if strip_line l = [] then [] else [strip_line l])
               @ SplitStringIntoLinesAndRemoveBlanksAndComments rest []"
    using split_loop_line [OF assms(1), of rest "[]" out]
      split_loop_out [of rest "[]" False "out @ [strip_line l]" "[]"]
      split_loop_out [of rest "[]" False "out" "[]"]
    by (simp add: SplitStringIntoLinesAndRemoveBlanksAndComments_def)
  have b: "SplitStringIntoLinesAndRemoveBlanksAndComments t ls = ls" for ls
    using assms(2) by (simp add: SplitStringIntoLinesAndRemoveBlanksAndComments_def
        split_loop_no_newline)
  have c: "SplitStringIntoLinesAndRemoveBlanksAndComments (s @ CHR 0x0A # t) ls =
           SplitStringIntoLinesAndRemoveBlanksAndComments (s @ [CHR 0x0A]) ls" for ls
    using assms(2) split_loop_after_newline [of s t "[]" False ls]
    by (simp add: SplitStringIntoLinesAndRemoveBlanksAndComments_def split_loop_no_newline)
  have d: "ReadIgnoresFromString t g = Inr g"
    by (simp add: ReadIgnoresFromString_def b)
  have e: "ReadIgnoresFromString (s @ CHR 0x0A # t) g = ReadIgnoresFromString (s @ [CHR 0x0A]) g"
    by (simp add: ReadIgnoresFromString_def c)
  show ?thesis by (intro conjI a b c d e)
qed

theorem split_lines_strip_and_drop_last_witness:
  "CHR 0x0A \<notin> set ''fun : a b*c # d e'' \<and> CHR 0x0A \<notin> set ''bogus''
   \<and> SplitStringIntoLinesAndRemoveBlanksAndComments
        (''fun : a b*c # d e'' @ CHR 0x0A # ''bogus'') [] = [''fun:ab*c'']
   \<and> ReadIgnoresFromString (''fun : a b*c # d e'' @ CHR 0x0A # ''bogus'')
        \<lparr>ignores = [], ignores_r = [], ignores_hist = []\<rparr>
      = Inr \<lparr>ignores = [IgnoreFun ''ab*c''], ignores_r = [], ignores_hist = []\<rparr>"
  using split_lines_strip_and_drop_last
      [of "''fun : a b*c # d e''" "''bogus''" "''bogus''" "[]" "''fun : a b*c # d e''"
          "\<lparr>ignores = [], ignores_r = [], ignores_hist = []\<rparr>"]
  by (simp add: strip_line_def SplitStringIntoLinesAndRemoveBlanksAndComments_def
      ReadIgnoresFromString_def ReadIgnoreLine_def CutStringPrefixIfPresent_def)



section \<open>Properties of the thread registry\<close>

lemma CHECK_LT_kMaxTid: "0 \<le> tid \<Longrightarrow> tid < kMaxTid \<Longrightarrow> CHECK_LT tid kMaxTid"
  by (simp add: CHECK_LT_def u64_of_int_def kMaxTid_def kTidBits_def word_less_def uint_word_of_int
      take_bit_int_eq_self)

lemma CHECK_GE_0: "CHECK_GE tid 0"
  by (simp add: CHECK_GE_def u64_of_int_def)

text \<open>
  C6 as the claim states it fails: \<open>ThreadStart\<close> has one body for debug and release
  builds, and for a context that is Running (not Created) it ends in the failed \<open>CHECK_EQ\<close>;
  the event is not skipped.
\<close>

theorem ThreadStart_running_aborts:
  "ThreadStart (0, 0, 0, 0) ex_thr 1 ex_ctx_running
     = Inl (CheckFailed ''(tctx->status) == (ThreadStatusCreated)'')"
  by (simp add: ThreadStart_def ex_thr_def ex_ctx_running_def ex_ctx_init_def ex_tctx_def
      ThreadContext_new_def CHECK_GT_def u64_of_int_def kMaxTid_def kTidBits_def)

text \<open>
  C6, amended: a \<open>ThreadStart\<close> for a tid whose context is not in status Created ends the
  process with a failed check, in every build: \<open>CHECK_EQ\<close> is not compiled out (only the
  \<open>DCHECK\<close> family is), and there is no path that logs and skips the event.
\<close>

theorem ThreadStart_not_created:
  assumes "0 \<le> tid" and "tid < kMaxTid"
    and "threads ctx tid = Some tctx" and "tctx_status tctx \<noteq> ThreadStatusCreated"
  shows "ThreadStart stack_and_tls thr tid ctx =
           (if CHECK_GT (in_rtl thr) 0
            then Inl (CheckFailed ''(tctx->status) == (ThreadStatusCreated)'')
            else Inl (CheckFailed ''(thr->in_rtl) > (0)''))"
  using assms by (cases stack_and_tls) (simp add: ThreadStart_def)

theorem ThreadStart_not_created_witness:
  "threads ex_ctx_running 0 = Some (ex_tctx 0 ThreadStatusRunning False)
   \<and> tctx_status (ex_tctx 0 ThreadStatusRunning False) \<noteq> ThreadStatusCreated
   \<and> ThreadStart (4096, 8192, 0, 0) ex_thr 0 ex_ctx_running
       = Inl (CheckFailed ''(tctx->status) == (ThreadStatusCreated)'')"
proof -
  have a: "threads ex_ctx_running 0 = Some (ex_tctx 0 ThreadStatusRunning False)"
    by (simp add: ex_ctx_running_def ex_ctx_init_def)
  have b: "tctx_status (ex_tctx 0 ThreadStatusRunning False) \<noteq> ThreadStatusCreated"
    by (simp add: ex_tctx_def)
  have c: "(0::int) < kMaxTid" by (simp add: kMaxTid_def)
  have d: "CHECK_GT (in_rtl ex_thr) 0"
    by (simp add: ex_thr_def CHECK_GT_def u64_of_int_def)
  show ?thesis
    using ThreadStart_not_created [OF order_refl c a b, of "(4096, 8192, 0, 0)" ex_thr] a b d
    by simp
qed

text \<open>
  C5 as the claim states it fails for the first create of a run: with \<open>thread_seq = 0\<close>
  the new tid is 0, and for tid 0 the creating thread keeps its epoch, its clock and its
  trace, and the new context gets no creation stack.
\<close>

theorem ThreadCreate_tid0_no_release:
  "ThreadCreate ex_thr 0x400500 7 False ex_ctx_init =
     Inr (0, ex_thr,
          ex_ctx_init\<lparr>thread_seq := 1,
            threads := (threads ex_ctx_init)
              (0 \<mapsto> (ThreadContext_new 0)\<lparr>tctx_status := ThreadStatusCreated, tctx_uid := 7\<rparr>)\<rparr>)
   \<and> tctx_creation_stack
        ((ThreadContext_new 0)\<lparr>tctx_status := ThreadStatusCreated, tctx_uid := 7\<rparr>) = []
   \<and> shadow_stack ex_thr = [0x400100, 0x400200]"
  by (simp add: ThreadCreate_def ThreadCreate_choose_def ex_thr_def ex_ctx_init_def
      ThreadContext_new_def CHECK_GT_def CHECK_GE_def CHECK_LT_def u64_of_int_def kMaxTid_def
      kTidBits_def kThreadQuarantineSize_def ThreadCreate_sync_def)

text \<open>
  C5, amended: on every thread create that returns a tid other than 0, the creating
  thread increments its epoch (with one trace event), sets its own vector-clock
  component to the new epoch, and releases its clock into the sync clock of the
  context it created (the element-wise maximum, which is the thread's clock when the
  sync clock was empty); the creation stack of the context is the creating thread's
  current shadow stack, with \<open>pc\<close> on top unless \<open>pc\<close> is zero. For tid 0 nothing of this
  is done: the creating thread is left as it is, and the context keeps its sync clock and
  its creation stack.
\<close>

theorem ThreadCreate_release:
  assumes "ThreadCreate thr pc uid detached ctx = Inr (tid, thr', ctx')"
  shows "\<exists>p ctx1 tctx0 tctx.
           ThreadCreate_choose ctx = Inr (p, tid, ctx1)
         \<and> threads ctx1 p = Some tctx0 \<and> threads ctx' p = Some tctx
         \<and> tctx_status tctx = ThreadStatusCreated
         \<and> (tid \<noteq> 0 \<longrightarrow>
               fast_state thr' = IncrementEpoch (fast_state thr)
             \<and> fs_epoch (fast_state thr') = fs_epoch (fast_state thr) + 1
             \<and> trace thr' = trace thr @ [(fs_epoch (fast_state thr'), EventTypeMop, 0)]
             \<and> clock thr' =
                 clock_set (clock thr) (fs_tid (fast_state thr)) (fs_epoch (fast_state thr'))
             \<and> clock_get (clock thr') (fs_tid (fast_state thr')) = fs_epoch (fast_state thr')
             \<and> tctx_sync tctx = clock_release (clock thr') (tctx_sync tctx0)
             \<and> (tctx_sync tctx0 = clock_empty \<longrightarrow> tctx_sync tctx = clock thr')
             \<and> tctx_creation_stack tctx = shadow_stack thr @ (if pc \<noteq> 0 then [pc] else []))
         \<and> (tid = 0 \<longrightarrow>
               thr' = thr \<and> tctx_sync tctx = tctx_sync tctx0
             \<and> tctx_creation_stack tctx = tctx_creation_stack tctx0)"
proof -
  from assms(1) obtain p ctx1 where ch: "ThreadCreate_choose ctx = Inr (p, tid, ctx1)"
    by (auto simp: ThreadCreate_def Let_def split: if_splits sum.splits option.splits prod.splits)
  from assms(1) ch obtain tctx0 where t0: "threads ctx1 p = Some tctx0"
    by (auto simp: ThreadCreate_def Let_def split: if_splits sum.splits option.splits prod.splits)
  have rel: "clock_release c clock_empty = c" for c :: ChunkedClock
    by (simp add: clock_release_def clock_empty_def max_def fun_eq_iff)
  from assms ch t0 show ?thesis
    by (auto simp: ThreadCreate_def ThreadCreate_sync_def Let_def IncrementEpoch_def
        TraceAddEvent_def ObtainCurrent_def clock_set_def clock_get_def rel split: if_splits)
qed

theorem ThreadCreate_release_witness:
  "ThreadCreate ex_thr 0x400500 8 False ex_ctx_running =
     Inr (2,
          ex_thr\<lparr>fast_state := \<lparr>fs_tid = 0, fs_epoch = 6, fs_ignore_bit = False\<rparr>,
                 trace := [(6, EventTypeMop, 0)],
                 clock := clock_set clock_empty 0 6,
                 fast_synch_epoch := 6\<rparr>,
          ex_ctx_running\<lparr>thread_seq := 3,
            threads := (threads ex_ctx_running)
              (2 \<mapsto> (ThreadContext_new 2)\<lparr>tctx_status := ThreadStatusCreated, tctx_uid := 8,
                      tctx_sync := clock_release (clock_set clock_empty 0 6) clock_empty,
                      tctx_creation_stack := [0x400100, 0x400200, 0x400500]\<rparr>)\<rparr>)
   \<and> (2::int) \<noteq> 0"
proof -
  have run: "ThreadCreate ex_thr 0x400500 8 False ex_ctx_running =
     Inr (2,
          ex_thr\<lparr>fast_state := \<lparr>fs_tid = 0, fs_epoch = 6, fs_ignore_bit = False\<rparr>,
                 trace := [(6, EventTypeMop, 0)],
                 clock := clock_set clock_empty 0 6,
                 fast_synch_epoch := 6\<rparr>,
          ex_ctx_running\<lparr>thread_seq := 3,
            threads := (threads ex_ctx_running)
              (2 \<mapsto> (ThreadContext_new 2)\<lparr>tctx_status := ThreadStatusCreated, tctx_uid := 8,
                      tctx_sync := clock_release (clock_set clock_empty 0 6) clock_empty,
                      tctx_creation_stack := [0x400100, 0x400200, 0x400500]\<rparr>)\<rparr>)"
    by (simp add: ThreadCreate_def ThreadCreate_choose_def ex_thr_def ex_ctx_running_def
        ex_ctx_init_def ThreadContext_new_def CHECK_GT_def CHECK_GE_def CHECK_LT_def
        u64_of_int_def kMaxTid_def kTidBits_def kThreadQuarantineSize_def IncrementEpoch_def
        TraceAddEvent_def ObtainCurrent_def ThreadCreate_sync_def Let_def)
  have ne: "(2::int) \<noteq> 0" by simp
  from ThreadCreate_release [OF run] run ne show ?thesis by blast
qed

section \<open>Thread leaks at finalize\<close>










section \<open>The quarantine of dead threads\<close>

lemma dead_chain_member:
  "dead_chain th p ds \<Longrightarrow> d \<in> set ds \<Longrightarrow>
   \<exists>t. th d = Some t \<and> tctx_status t = ThreadStatusDead \<and> tctx_tid t = d"
  by (induction ds arbitrary: p) (auto split: option.splits)

lemma dead_chain_update_other:
  "dead_chain th p ds \<Longrightarrow> q \<notin> set ds \<Longrightarrow> dead_chain (th(q := x)) p ds"
  by (induction ds arbitrary: p) (auto split: option.splits)

lemma dead_chain_snoc:
  assumes "dead_chain th p ds" and "ds \<noteq> []" and "distinct ds" and "q \<notin> set ds"
    and "th (last ds) = Some t"
    and "th q = Some tq" and "tctx_status tq = ThreadStatusDead" and "tctx_tid tq = q"
    and "tctx_dead_next tq = None"
  shows "dead_chain (th(last ds \<mapsto> t\<lparr>tctx_dead_next := Some q\<rparr>)) p (ds @ [q])"
  using assms
proof (induction ds arbitrary: p)
  case Nil
  then show ?case by simp
next
  case (Cons d ds)
  show ?case
  proof (cases "ds = []")
    case True
    with Cons.prems show ?thesis by (auto split: option.splits)
  next
    case False
    with Cons.prems obtain td where td: "th d = Some td" "p = Some d"
      "tctx_status td = ThreadStatusDead" "tctx_tid td = d" "dead_chain th (tctx_dead_next td) ds"
      by (auto split: option.splits)
    from False Cons.prems have l: "last (d # ds) = last ds" "last ds \<noteq> d" "last ds \<in> set ds"
      by auto
    from Cons.prems have d1: "distinct ds" and q1: "q \<notin> set ds" by auto
    from Cons.prems l have t1: "th (last ds) = Some t" by simp
    have ih: "dead_chain (th(last ds \<mapsto> t\<lparr>tctx_dead_next := Some q\<rparr>)) (tctx_dead_next td) (ds @ [q])"
      by (rule Cons.IH [OF td(5) False d1 q1 t1 Cons.prems(6) Cons.prems(7) Cons.prems(8)
            Cons.prems(9)])
    have "dead_chain (th(last ds \<mapsto> t\<lparr>tctx_dead_next := Some q\<rparr>)) p ((d # ds) @ [q])"
      using ih td l(2) by simp
    then show ?thesis by (simp only: l(1))
  qed
qed

lemma ThreadDead_enqueues:
  assumes rtl: "CHECK_GT (in_rtl thr) 0" and q: "quarantine ctx ds"
    and p: "threads ctx p = Some tctx"
    and st: "tctx_status tctx = ThreadStatusRunning \<or> tctx_status tctx = ThreadStatusFinished"
    and tid: "tctx_tid tctx = p" and range: "0 \<le> p" "p < thread_seq ctx"
  shows "\<exists>ctx'. ThreadDead thr p ctx = Inr ctx' \<and> quarantine ctx' (ds @ [p])
           \<and> thread_seq ctx' = thread_seq ctx"
proof -
  from q have ch: "dead_chain (threads ctx) (dead_list_head ctx) ds"
    and sz: "dead_list_size ctx = int (length ds)" and dist: "distinct ds"
    and rng: "list_all (\<lambda>d. 0 \<le> d \<and> d < thread_seq ctx) ds"
    and seq: "0 \<le> thread_seq ctx" "thread_seq ctx \<le> kMaxTid"
    and tl: "ds = [] \<or> dead_list_tail ctx = Some (last ds)"
    by (simp_all add: quarantine_def)
  have notin: "p \<notin> set ds"
    using dead_chain_member [OF ch, of p] p st by auto
  define tctx1 where "tctx1 = tctx\<lparr>tctx_status := ThreadStatusDead, tctx_uid := 0,
                              tctx_sync := clock_empty, tctx_dead_next := None\<rparr>"
  show ?thesis
  proof (cases "ds = []")
    case True
    with rtl p st sz ch tid range seq show ?thesis
      by (auto simp: ThreadDead_def quarantine_def Let_def)
  next
    case False
    with tl have tail: "dead_list_tail ctx = Some (last ds)" by simp
    from False have lin: "last ds \<in> set ds" by simp
    with notin have lne: "last ds \<noteq> p" by auto
    from dead_chain_member [OF ch lin] obtain t where t: "threads ctx (last ds) = Some t" by auto
    have ch1: "dead_chain ((threads ctx)(p \<mapsto> tctx1)) (dead_list_head ctx) ds"
      by (rule dead_chain_update_other [OF ch notin])
    have ch2: "dead_chain ((threads ctx)(p \<mapsto> tctx1, last ds \<mapsto> t\<lparr>tctx_dead_next := Some p\<rparr>))
                 (dead_list_head ctx) (ds @ [p])"
      using dead_chain_snoc [OF ch1 False dist notin, of t tctx1] t lne tid
      by (simp add: tctx1_def)
    from False sz have nz: "dead_list_size ctx \<noteq> 0" by simp
    have run: "ThreadDead thr p ctx =
        Inr (ctx\<lparr>threads := (threads ctx)(p \<mapsto> tctx1, last ds \<mapsto> t\<lparr>tctx_dead_next := Some p\<rparr>),
                 dead_list_tail := Some p, dead_list_size := dead_list_size ctx + 1\<rparr>)"
      using rtl p st nz tail t lne by (auto simp: ThreadDead_def Let_def tctx1_def)
    show ?thesis
      unfolding run using ch2 sz dist notin rng seq range
      by (simp add: quarantine_def)
  qed
qed

lemma quarantine_update_other:
  "quarantine ctx ds \<Longrightarrow> p \<notin> set ds \<Longrightarrow> quarantine (ctx\<lparr>threads := (threads ctx)(p := x)\<rparr>) ds"
  by (simp add: quarantine_def dead_chain_update_other)

lemma ThreadCreate_choose_reuse:
  assumes q: "quarantine ctx (d # ds)"
    and c: "dead_list_size ctx > kThreadQuarantineSize \<or> thread_seq ctx \<ge> kMaxTid"
  shows "\<exists>t. threads ctx d = Some t \<and> tctx_status t = ThreadStatusDead \<and> tctx_tid t = d
           \<and> ThreadCreate_choose ctx =
               Inr (d, d, ctx\<lparr>dead_list_head := tctx_dead_next t,
                               dead_list_size := dead_list_size ctx - 1,
                               threads := (threads ctx)
                                 (d \<mapsto> t\<lparr>tctx_status := ThreadStatusInvalid,
                                          tctx_reuse_count := tctx_reuse_count t + 1\<rparr>)\<rparr>)
           \<and> quarantine (ctx\<lparr>dead_list_head := tctx_dead_next t,
                               dead_list_size := dead_list_size ctx - 1\<rparr>) ds"
proof -
  from q obtain t where t: "threads ctx d = Some t" "dead_list_head ctx = Some d"
      "tctx_status t = ThreadStatusDead" "tctx_tid t = d"
      "dead_chain (threads ctx) (tctx_dead_next t) ds"
    by (auto simp: quarantine_def split: option.splits)
  from q have sz: "dead_list_size ctx = 1 + int (length ds)" by (simp add: quarantine_def)
  have nn: "ds = [] \<Longrightarrow> tctx_dead_next t = None" using t(5) by simp
  have run: "ThreadCreate_choose ctx =
               Inr (d, d, ctx\<lparr>dead_list_head := tctx_dead_next t,
                               dead_list_size := dead_list_size ctx - 1,
                               threads := (threads ctx)
                                 (d \<mapsto> t\<lparr>tctx_status := ThreadStatusInvalid,
                                          tctx_reuse_count := tctx_reuse_count t + 1\<rparr>)\<rparr>)"
    using c t sz nn by (cases "ds = []") (auto simp: ThreadCreate_choose_def Let_def)
  have q': "quarantine (ctx\<lparr>dead_list_head := tctx_dead_next t,
                               dead_list_size := dead_list_size ctx - 1\<rparr>) ds"
    using q t(5) sz by (auto simp: quarantine_def)
  from t run q' show ?thesis by blast
qed

lemma ThreadCreate_finish:
  assumes rtl: "CHECK_GT (in_rtl thr) 0"
    and ch: "ThreadCreate_choose ctx = Inr (p, tid, ctx1)"
    and t0: "threads ctx1 p = Some t0" and inv: "tctx_status t0 = ThreadStatusInvalid"
    and range: "0 \<le> tid" "tid < kMaxTid"
  shows "\<exists>thr' t'. ThreadCreate thr pc uid detached ctx =
            Inr (tid, thr', ctx1\<lparr>threads := (threads ctx1)(p \<mapsto> t')\<rparr>)"
proof -
  define r where "r = (if tid \<noteq> 0
      then ThreadCreate_sync thr pc (t0\<lparr>tctx_status := ThreadStatusCreated, tctx_thr := None,
              tctx_uid := uid, tctx_detached := detached\<rparr>)
      else (thr, t0\<lparr>tctx_status := ThreadStatusCreated, tctx_thr := None,
              tctx_uid := uid, tctx_detached := detached\<rparr>))"
  have "ThreadCreate thr pc uid detached ctx =
      Inr (tid, fst r, ctx1\<lparr>threads := (threads ctx1)(p \<mapsto> snd r)\<rparr>)"
    using rtl ch t0 inv CHECK_LT_kMaxTid [OF range] CHECK_GE_0 [of tid]
    by (simp add: ThreadCreate_def Let_def r_def case_prod_beta)
  then show ?thesis by blast
qed

lemma ex_ctx_q100_quarantine: "quarantine ex_ctx_q100 [1..100]"
proof -
  have chain: "1 \<le> i \<Longrightarrow> i \<le> 100 \<Longrightarrow> dead_chain (threads ex_ctx_q100) (Some i) [i..100]" for i
  proof (induction "nat (100 - i)" arbitrary: i)
    case 0
    then have "i = 100" by simp
    then show ?case by (simp add: ex_ctx_q100_def ex_dead_def ThreadContext_new_def)
  next
    case (Suc n)
    then have i: "i < 100" "1 \<le> i" and n: "n = nat (100 - (i + 1))" by auto
    have "dead_chain (threads ex_ctx_q100) (Some (i + 1)) [i + 1..100]"
      using Suc.hyps(1) [OF n] i by simp
    moreover have "[i..100] = i # [i + 1..100]" using i by (simp add: upto_rec1)
    ultimately show ?case using i
      by (simp add: ex_ctx_q100_def ex_dead_def ThreadContext_new_def)
  qed
  show ?thesis
    unfolding quarantine_def
  proof (intro conjI)
    show "dead_chain (threads ex_ctx_q100) (dead_list_head ex_ctx_q100) [1..100]"
      using chain [of 1] by (simp add: ex_ctx_q100_def)
    show "list_all (\<lambda>d. 0 \<le> d \<and> d < thread_seq ex_ctx_q100) [1..100]"
      by (simp add: list_all_iff ex_ctx_q100_def)
    show "[1..100] = [] \<or> dead_list_tail ex_ctx_q100 = Some (last [1..100])"
      using upto_split2 [of 1 99 100] by (simp add: ex_ctx_q100_def del: upto_rec_numeral)
  qed (simp_all add: ex_ctx_q100_def kMaxTid_def kTidBits_def del: upto_rec_numeral)
qed

text \<open>
  C3 as the claim states it fails at a quarantine of exactly 100: the dead list
  holds the slots 1 to 100 (oldest first), \<open>thread_seq\<close> is 101, and \<open>ThreadCreate\<close>
  does not reuse tid 1 but gives the fresh tid 101.
\<close>

theorem ThreadCreate_quarantine_100_fresh:
  "map_sum id fst (ThreadCreate ex_thr 0x400500 9 False ex_ctx_q100) = Inr 101
   \<and> quarantine ex_ctx_q100 [1..100]
   \<and> dead_list_size ex_ctx_q100 = kThreadQuarantineSize
   \<and> thread_seq ex_ctx_q100 = 101"
proof -
  have a: "map_sum id fst (ThreadCreate ex_thr 0x400500 9 False ex_ctx_q100) = Inr 101"
    by (simp add: ThreadCreate_def ThreadCreate_choose_def ex_thr_def ex_ctx_q100_def
      ThreadContext_new_def CHECK_GT_def CHECK_GE_def CHECK_LT_def u64_of_int_def kMaxTid_def
      kTidBits_def kThreadQuarantineSize_def Let_def ThreadCreate_sync_def IncrementEpoch_def
      TraceAddEvent_def)
  note b = ex_ctx_q100_quarantine
  show ?thesis using a b by (simp add: ex_ctx_q100_def kThreadQuarantineSize_def)
qed

lemma quarantine_not_member: "quarantine ctx ds \<Longrightarrow> thread_seq ctx \<notin> set ds"
  by (auto simp: quarantine_def list_all_iff)

lemma ThreadCreate_fresh:
  assumes rtl: "CHECK_GT (in_rtl thr) 0" and q: "quarantine ctx ds"
    and c: "dead_list_size ctx \<le> kThreadQuarantineSize" "thread_seq ctx < kMaxTid"
  shows "\<exists>thr' ctx'. ThreadCreate thr pc uid detached ctx = Inr (thread_seq ctx, thr', ctx')
           \<and> quarantine ctx' ds \<and> thread_seq ctx' = thread_seq ctx + 1"
proof -
  from q have seq: "0 \<le> thread_seq ctx" by (simp add: quarantine_def)
  define ctx1 where "ctx1 = ctx\<lparr>thread_seq := thread_seq ctx + 1,
       threads := (threads ctx)(thread_seq ctx \<mapsto> ThreadContext_new (thread_seq ctx))\<rparr>"
  have ch: "ThreadCreate_choose ctx = Inr (thread_seq ctx, thread_seq ctx, ctx1)"
    using c seq by (simp add: ThreadCreate_choose_def Let_def ctx1_def)
  have t0: "threads ctx1 (thread_seq ctx) = Some (ThreadContext_new (thread_seq ctx))"
    by (simp add: ctx1_def)
  have inv: "tctx_status (ThreadContext_new (thread_seq ctx)) = ThreadStatusInvalid"
    by (simp add: ThreadContext_new_def)
  from ThreadCreate_finish [OF rtl ch t0 inv seq c(2), of pc uid detached]
  obtain thr' t' where run: "ThreadCreate thr pc uid detached ctx =
      Inr (thread_seq ctx, thr', ctx1\<lparr>threads := (threads ctx1)(thread_seq ctx \<mapsto> t')\<rparr>)"
    by blast
  have q1: "quarantine (ctx\<lparr>thread_seq := thread_seq ctx + 1\<rparr>) ds"
    using q c(2) by (auto simp: quarantine_def list_all_iff)
  have "quarantine (ctx\<lparr>thread_seq := thread_seq ctx + 1\<rparr>
          \<lparr>threads := (threads (ctx\<lparr>thread_seq := thread_seq ctx + 1\<rparr>))(thread_seq ctx := Some t')\<rparr>) ds"
    by (rule quarantine_update_other [OF q1 quarantine_not_member [OF q]])
  then have "quarantine (ctx1\<lparr>threads := (threads ctx1)(thread_seq ctx \<mapsto> t')\<rparr>) ds"
    by (simp add: ctx1_def)
  with run show ?thesis by (simp add: ctx1_def)
qed

lemma ThreadCreate_reuse:
  assumes rtl: "CHECK_GT (in_rtl thr) 0" and q: "quarantine ctx (d # ds)"
    and c: "dead_list_size ctx > kThreadQuarantineSize \<or> thread_seq ctx \<ge> kMaxTid"
  shows "\<exists>thr' ctx'. ThreadCreate thr pc uid detached ctx = Inr (d, thr', ctx')
           \<and> quarantine ctx' ds \<and> thread_seq ctx' = thread_seq ctx"
proof -
  from q have range: "0 \<le> d" "d < kMaxTid" and notin: "d \<notin> set ds"
    by (auto simp: quarantine_def)
  from ThreadCreate_choose_reuse [OF q c] obtain t where
    ch: "ThreadCreate_choose ctx =
           Inr (d, d, ctx\<lparr>dead_list_head := tctx_dead_next t,
                           dead_list_size := dead_list_size ctx - 1,
                           threads := (threads ctx)
                             (d \<mapsto> t\<lparr>tctx_status := ThreadStatusInvalid,
                                      tctx_reuse_count := tctx_reuse_count t + 1\<rparr>)\<rparr>)"
    and q1: "quarantine (ctx\<lparr>dead_list_head := tctx_dead_next t,
                               dead_list_size := dead_list_size ctx - 1\<rparr>) ds"
    by blast
  define ctx0 where "ctx0 = ctx\<lparr>dead_list_head := tctx_dead_next t,
                               dead_list_size := dead_list_size ctx - 1\<rparr>"
  define ctx1 where "ctx1 = ctx0\<lparr>threads := (threads ctx)
                             (d \<mapsto> t\<lparr>tctx_status := ThreadStatusInvalid,
                                      tctx_reuse_count := tctx_reuse_count t + 1\<rparr>)\<rparr>"
  have ch1: "ThreadCreate_choose ctx = Inr (d, d, ctx1)"
    using ch by (simp add: ctx1_def ctx0_def)
  have t0: "threads ctx1 d = Some (t\<lparr>tctx_status := ThreadStatusInvalid,
                                      tctx_reuse_count := tctx_reuse_count t + 1\<rparr>)"
    by (simp add: ctx1_def)
  from ThreadCreate_finish [OF rtl ch1 t0 _ range, of pc uid detached]
  obtain thr' t' where run: "ThreadCreate thr pc uid detached ctx =
      Inr (d, thr', ctx1\<lparr>threads := (threads ctx1)(d \<mapsto> t')\<rparr>)"
    by auto
  have q0: "quarantine ctx0 ds" using q1 by (simp add: ctx0_def)
  have "quarantine (ctx0\<lparr>threads := (threads ctx0)(d := Some t')\<rparr>) ds"
    by (rule quarantine_update_other [OF q0 notin])
  then have "quarantine (ctx1\<lparr>threads := (threads ctx1)(d \<mapsto> t')\<rparr>) ds"
    by (simp add: ctx1_def ctx0_def)
  with run show ?thesis by (simp add: ctx1_def ctx0_def)
qed

text \<open>
  C3, amended: with the dead list holding \<open>ds\<close>, oldest first, \<open>ThreadCreate\<close> reuses the
  oldest dead tid (the head of the list, which leaves the list) when the quarantine holds
  more than Q = 100 contexts, and also when the sequence counter has reached
  \<open>2^16\<close> and the quarantine is not empty; with a quarantine of at most 100 and a
  sequence counter below \<open>2^16\<close> it assigns the fresh tid \<open>thread_seq\<close>; with an empty
  quarantine and the sequence counter at \<open>2^16\<close> it prints the thread-limit message and
  dies. The quarantine is a queue: a thread that dies goes to its end.
\<close>

theorem ThreadCreate_quarantine:
  assumes rtl: "CHECK_GT (in_rtl thr) 0" and q: "quarantine ctx ds"
  shows "(ds = [] \<and> kMaxTid \<le> thread_seq ctx \<longrightarrow>
            ThreadCreate thr pc uid detached ctx = Inl (Died thread_limit_message))
       \<and> (ds \<noteq> [] \<and> (kThreadQuarantineSize < int (length ds) \<or> kMaxTid \<le> thread_seq ctx) \<longrightarrow>
            (\<exists>thr' ctx'. ThreadCreate thr pc uid detached ctx = Inr (hd ds, thr', ctx')
               \<and> quarantine ctx' (tl ds) \<and> thread_seq ctx' = thread_seq ctx))
       \<and> (int (length ds) \<le> kThreadQuarantineSize \<and> thread_seq ctx < kMaxTid \<longrightarrow>
            (\<exists>thr' ctx'. ThreadCreate thr pc uid detached ctx = Inr (thread_seq ctx, thr', ctx')
               \<and> quarantine ctx' ds \<and> thread_seq ctx' = thread_seq ctx + 1))
       \<and> (\<forall>p tctx. threads ctx p = Some tctx
              \<and> (tctx_status tctx = ThreadStatusRunning \<or> tctx_status tctx = ThreadStatusFinished)
              \<and> tctx_tid tctx = p \<and> 0 \<le> p \<and> p < thread_seq ctx \<longrightarrow>
            (\<exists>ctx'. ThreadDead thr p ctx = Inr ctx' \<and> quarantine ctx' (ds @ [p])
               \<and> thread_seq ctx' = thread_seq ctx))
       \<and> kThreadQuarantineSize = 100 \<and> kMaxTid = 2 ^ 16"
proof (intro conjI impI allI)
  from q have sz: "dead_list_size ctx = int (length ds)" by (simp add: quarantine_def)
  {
    assume a: "ds = [] \<and> kMaxTid \<le> thread_seq ctx"
    with sz rtl show "ThreadCreate thr pc uid detached ctx = Inl (Died thread_limit_message)"
      by (simp add: ThreadCreate_def ThreadCreate_choose_def)
  }
  {
    assume a: "ds \<noteq> [] \<and> (kThreadQuarantineSize < int (length ds) \<or> kMaxTid \<le> thread_seq ctx)"
    then obtain d ds' where ds: "ds = d # ds'" by (cases ds) auto
    from a sz have c: "dead_list_size ctx > kThreadQuarantineSize \<or> thread_seq ctx \<ge> kMaxTid"
      by simp
    from ThreadCreate_reuse [OF rtl q [unfolded ds] c, of pc uid detached]
    show "\<exists>thr' ctx'. ThreadCreate thr pc uid detached ctx = Inr (hd ds, thr', ctx')
               \<and> quarantine ctx' (tl ds) \<and> thread_seq ctx' = thread_seq ctx"
      by (simp add: ds)
  }
  {
    assume a: "int (length ds) \<le> kThreadQuarantineSize \<and> thread_seq ctx < kMaxTid"
    with sz have c: "dead_list_size ctx \<le> kThreadQuarantineSize" "thread_seq ctx < kMaxTid"
      by simp_all
    from ThreadCreate_fresh [OF rtl q c, of pc uid detached]
    show "\<exists>thr' ctx'. ThreadCreate thr pc uid detached ctx = Inr (thread_seq ctx, thr', ctx')
               \<and> quarantine ctx' ds \<and> thread_seq ctx' = thread_seq ctx + 1" .
  }
  {
    fix p tctx
    assume a: "threads ctx p = Some tctx
              \<and> (tctx_status tctx = ThreadStatusRunning \<or> tctx_status tctx = ThreadStatusFinished)
              \<and> tctx_tid tctx = p \<and> 0 \<le> p \<and> p < thread_seq ctx"
    then show "\<exists>ctx'. ThreadDead thr p ctx = Inr ctx' \<and> quarantine ctx' (ds @ [p])
               \<and> thread_seq ctx' = thread_seq ctx"
      using ThreadDead_enqueues [OF rtl q, of p tctx] by blast
  }
  show "kThreadQuarantineSize = 100" by (simp add: kThreadQuarantineSize_def)
  show "kMaxTid = 2 ^ 16" by (simp add: kMaxTid_def kTidBits_def)
qed

theorem ThreadCreate_quarantine_witness:
  "CHECK_GT (in_rtl ex_thr) 0
   \<and> quarantine ex_ctx_full [5, 3] \<and> quarantine ex_ctx_q100 [1..100] \<and> quarantine ex_ctx_limit []
   \<and> (\<exists>thr' ctx'. ThreadCreate ex_thr 0x400500 9 False ex_ctx_full = Inr (5, thr', ctx')
         \<and> quarantine ctx' [3])
   \<and> (\<exists>thr' ctx'. ThreadCreate ex_thr 0x400500 9 False ex_ctx_q100 = Inr (101, thr', ctx')
         \<and> quarantine ctx' [1..100])
   \<and> ThreadCreate ex_thr 0x400500 9 False ex_ctx_limit = Inl (Died thread_limit_message)"
proof -
  have rtl: "CHECK_GT (in_rtl ex_thr) 0"
    by (simp add: ex_thr_def CHECK_GT_def u64_of_int_def)
  have q1: "quarantine ex_ctx_full [5, 3]"
    by (simp add: quarantine_def ex_ctx_full_def ex_dead_def ThreadContext_new_def kMaxTid_def
        kTidBits_def)
  have q2: "quarantine ex_ctx_limit []"
    by (simp add: quarantine_def ex_ctx_limit_def ex_ctx_init_def kMaxTid_def kTidBits_def)
  note q3 = ex_ctx_q100_quarantine
  have len: "length [1..100::int] = 100" by (simp del: upto_rec_numeral)
  have w1: "\<exists>thr' ctx'. ThreadCreate ex_thr 0x400500 9 False ex_ctx_full = Inr (5, thr', ctx')
         \<and> quarantine ctx' [3]"
  proof -
    have "kMaxTid \<le> thread_seq ex_ctx_full"
      by (simp add: ex_ctx_full_def kMaxTid_def kTidBits_def)
    with ThreadCreate_quarantine [OF rtl q1, of "0x400500" 9 False] show ?thesis
      by auto
  qed
  have w2: "\<exists>thr' ctx'. ThreadCreate ex_thr 0x400500 9 False ex_ctx_q100 = Inr (101, thr', ctx')
         \<and> quarantine ctx' [1..100]"
  proof -
    have "int (length [1..100::int]) \<le> kThreadQuarantineSize"
      unfolding len by (simp add: kThreadQuarantineSize_def)
    moreover have "thread_seq ex_ctx_q100 < kMaxTid" and "thread_seq ex_ctx_q100 = 101"
      by (simp_all add: ex_ctx_q100_def kMaxTid_def kTidBits_def)
    ultimately show ?thesis
      using ThreadCreate_quarantine [OF rtl q3, of "0x400500" 9 False] by metis
  qed
  have w3: "ThreadCreate ex_thr 0x400500 9 False ex_ctx_limit = Inl (Died thread_limit_message)"
  proof -
    have "kMaxTid \<le> thread_seq ex_ctx_limit"
      by (simp add: ex_ctx_limit_def ex_ctx_init_def kMaxTid_def kTidBits_def)
    with ThreadCreate_quarantine [OF rtl q2, of "0x400500" 9 False] show ?thesis
      by blast
  qed
  show ?thesis by (intro conjI rtl q1 q2 q3 w1 w2 w3)
qed

section \<open>The sync table holds one variable per address\<close>

lemma PartIdx_less: "0 < K \<Longrightarrow> PartIdx K a < K"
  by (simp add: PartIdx_def)

lemma bucket_find_hit:
  "distinct (map sv_addr b) \<Longrightarrow> v \<in> set b \<Longrightarrow> bucket_find b (sv_addr v) = Some v"
  by (induction b) (auto simp: image_iff)

lemma bucket_find_miss: "\<forall>v \<in> set b. sv_addr v \<noteq> a \<Longrightarrow> bucket_find b a = None"
  by (induction b) auto

lemma bucket_find_Some: "bucket_find b a = Some v \<Longrightarrow> v \<in> set b \<and> sv_addr v = a"
  by (induction b) (auto split: if_splits)

lemma bucket_find_None: "bucket_find b a = None \<Longrightarrow> \<forall>v \<in> set b. sv_addr v \<noteq> a"
  by (induction b) (auto split: if_splits)

lemma concat_single_part:
  assumes "p0 < K" and "\<And>p. p < K \<Longrightarrow> p \<noteq> p0 \<Longrightarrow> g p = []"
  shows "concat (map g [0..<K]) = g p0"
proof -
  have split: "[0..<K] = [0..<p0] @ p0 # [Suc p0..<K]"
    using assms(1) by (metis le_add1 less_imp_add_positive upt_add_eq_append upt_conv_Cons plus_nat.add_0)
  have a: "concat (map g [0..<p0]) = []" using assms by simp
  have b: "concat (map g [Suc p0..<K]) = []" using assms by simp
  show ?thesis unfolding split by (simp only: map_append list.map concat_append concat.simps a b
      append_Nil append_Nil2)
qed

lemma sync_inv_part:
  "sync_inv K tab \<Longrightarrow> p < K \<Longrightarrow>
   distinct (map sv_addr (tab p)) \<and> (\<forall>v \<in> set (tab p). PartIdx K (sv_addr v) = p)"
  by (simp add: sync_inv_def list_all_iff)

lemma instances_eq:
  assumes "0 < K" and "sync_inv K tab"
  shows "instances K tab a = filter (\<lambda>v. sv_addr v = a) (tab (PartIdx K a))"
  unfolding instances_def
proof (rule concat_single_part [OF PartIdx_less [OF assms(1)]])
  fix p assume "p < K" and "p \<noteq> PartIdx K a"
  with sync_inv_part [OF assms(2), of p] show "filter (\<lambda>v. sv_addr v = a) (tab p) = []"
    by (auto simp: filter_empty_conv)
qed

lemma distinct_filter_le_one:
  "distinct (map f xs) \<Longrightarrow> length (filter (\<lambda>v. f v = a) xs) \<le> 1"
  by (induction xs) (auto simp: filter_empty_conv image_iff)

lemma instances_le_one:
  assumes "0 < K" and "sync_inv K tab"
  shows "length (instances K tab a) \<le> 1"
  unfolding instances_eq [OF assms]
  using sync_inv_part [OF assms(2) PartIdx_less [OF assms(1)], of a]
    distinct_filter_le_one [of sv_addr "tab (PartIdx K a)" a]
  by simp

lemma GetAndLock_write_inv:
  assumes "0 < K" and "sync_inv K tab"
  shows "sync_inv K (snd (GetAndLock_write K thr pc tab a w))"
proof (cases "bucket_find (tab (PartIdx K a)) a")
  case (Some v)
  with assms show ?thesis by (simp add: GetAndLock_write_def)
next
  case None
  from bucket_find_None [OF None] have fresh: "a \<notin> sv_addr ` set (tab (PartIdx K a))" by auto
  from None assms fresh show ?thesis
    by (auto simp: GetAndLock_write_def Let_def sync_inv_def list_all_iff SyncVar_new_def)
qed

lemma GetAndLock_write_after_miss:
  "GetAndLock_read K tab a w = None \<Longrightarrow>
   GetAndLock_write K thr pc tab a w =
     (((SyncVar_new a)\<lparr>sv_creation_stack := ObtainCurrent thr pc\<rparr>, lock_in_mode w),
      tab(PartIdx K a := (SyncVar_new a)\<lparr>sv_creation_stack := ObtainCurrent thr pc\<rparr>
                           # tab (PartIdx K a)))"
  by (simp add: GetAndLock_read_def GetAndLock_write_def Let_def split: option.splits)

lemma GetAndLock_eq_write:
  "GetAndLock K thr pc tab a w = GetAndLock_write K thr pc tab a w"
  by (simp add: GetAndLock_def GetAndLock_read_def GetAndLock_write_def Let_def
      split: option.splits)

lemma bucket_unlink_rest:
  "set (snd (bucket_unlink b a)) \<subseteq> set b
   \<and> (distinct (map sv_addr b) \<longrightarrow> distinct (map sv_addr (snd (bucket_unlink b a))))"
  by (induction b) (auto split: prod.splits)

lemma GetAndRemove_inv:
  assumes "sync_inv K tab"
  shows "sync_inv K (snd (GetAndRemove K tab a))"
  using assms bucket_unlink_rest [of "tab (PartIdx K a)" a]
  by (auto simp: GetAndRemove_def Let_def sync_inv_def list_all_iff split: prod.splits)

lemma sync_inv_empty: "sync_inv K (\<lambda>p. [])"
  by (simp add: sync_inv_def list_all_iff)

text \<open>
  C2. In a table with at most one variable per address, \<open>GetAndLock\<close> returns the
  existing variable of the address, locked in the requested mode, and leaves the table
  as it is; when the bucket has none, it allocates a variable with the creation stack
  of the caller and prepends it. Either way the table keeps at most one variable per
  address, the returned variable is the only instance of its address, and a second
  lookup returns the same instance. The second critical section alone (the look under
  the write lock of the part) keeps the invariant on any table that has it, and
  returns the variable that is there when another writer has inserted one since the
  first look. The empty table has the invariant and \<open>GetAndRemove\<close> keeps it. The
  instants are the steps of the critical sections: what happens inside one is not
  interleaved here.
\<close>

theorem GetAndLock_one_instance:
  assumes K: "0 < K" and inv: "sync_inv K tab"
  shows "(\<forall>v. v \<in> set (tab (PartIdx K a)) \<and> sv_addr v = a \<longrightarrow>
            GetAndLock K thr pc tab a w = ((v, lock_in_mode w), tab))
       \<and> ((\<forall>v \<in> set (tab (PartIdx K a)). sv_addr v \<noteq> a) \<longrightarrow>
            GetAndLock K thr pc tab a w =
              (((SyncVar_new a)\<lparr>sv_creation_stack := ObtainCurrent thr pc\<rparr>, lock_in_mode w),
               tab(PartIdx K a := (SyncVar_new a)\<lparr>sv_creation_stack := ObtainCurrent thr pc\<rparr>
                                    # tab (PartIdx K a))))
       \<and> sync_inv K (snd (GetAndLock K thr pc tab a w))
       \<and> (\<forall>c. length (instances K (snd (GetAndLock K thr pc tab a w)) c) \<le> 1)
       \<and> instances K (snd (GetAndLock K thr pc tab a w)) a = [fst (fst (GetAndLock K thr pc tab a w))]
       \<and> fst (fst (GetAndLock K thr2 pc2 (snd (GetAndLock K thr pc tab a w)) a w2))
           = fst (fst (GetAndLock K thr pc tab a w))
       \<and> sync_inv K (snd (GetAndLock_write K thr pc tab a w))
       \<and> (\<forall>v. v \<in> set (tab (PartIdx K a)) \<and> sv_addr v = a \<longrightarrow>
            GetAndLock_write K thr pc tab a w = ((v, lock_in_mode w), tab))
       \<and> (lock_in_mode w = (if w then MtxLock else MtxReadLock))
       \<and> sync_inv K (snd (GetAndRemove K tab b))
       \<and> sync_inv K (\<lambda>p. [])"
proof -
  note part = sync_inv_part [OF inv PartIdx_less [OF K], of a]
  have hit: "GetAndLock_write K thr pc tab a w = ((v, lock_in_mode w), tab)"
    if "v \<in> set (tab (PartIdx K a)) \<and> sv_addr v = a" for v
    using bucket_find_hit [of "tab (PartIdx K a)" v] part that
    by (simp add: GetAndLock_write_def)
  have miss: "GetAndLock_write K thr pc tab a w =
              (((SyncVar_new a)\<lparr>sv_creation_stack := ObtainCurrent thr pc\<rparr>, lock_in_mode w),
               tab(PartIdx K a := (SyncVar_new a)\<lparr>sv_creation_stack := ObtainCurrent thr pc\<rparr>
                                    # tab (PartIdx K a)))"
    if "\<forall>v \<in> set (tab (PartIdx K a)). sv_addr v \<noteq> a"
    using bucket_find_miss [OF that] by (simp add: GetAndLock_write_def Let_def)
  define r where "r = GetAndLock_write K thr pc tab a w"
  have inv': "sync_inv K (snd r)"
    unfolding r_def by (rule GetAndLock_write_inv [OF K inv])
  have mem: "fst (fst r) \<in> set (snd r (PartIdx K a)) \<and> sv_addr (fst (fst r)) = a"
  proof (cases "bucket_find (tab (PartIdx K a)) a")
    case None
    then show ?thesis by (simp add: r_def GetAndLock_write_def Let_def SyncVar_new_def)
  next
    case (Some v)
    with bucket_find_Some [OF Some] show ?thesis by (simp add: r_def GetAndLock_write_def)
  qed
  have one: "instances K (snd r) a = [fst (fst r)]"
  proof -
    have le: "length (filter (\<lambda>v. sv_addr v = a) (snd r (PartIdx K a))) \<le> 1"
      using instances_le_one [OF K inv', of a] by (simp add: instances_eq [OF K inv'])
    from mem have "fst (fst r) \<in> set (filter (\<lambda>v. sv_addr v = a) (snd r (PartIdx K a)))"
      by simp
    with le have "filter (\<lambda>v. sv_addr v = a) (snd r (PartIdx K a)) = [fst (fst r)]"
      by (cases "filter (\<lambda>v. sv_addr v = a) (snd r (PartIdx K a))") auto
    then show ?thesis by (simp add: instances_eq [OF K inv'])
  qed
  have again: "fst (fst (GetAndLock_write K thr2 pc2 (snd r) a w2)) = fst (fst r)"
    using bucket_find_hit [of "snd r (PartIdx K a)" "fst (fst r)"] mem
      sync_inv_part [OF inv' PartIdx_less [OF K], of a]
    by (simp add: GetAndLock_write_def)
  show ?thesis
    unfolding GetAndLock_eq_write
    using hit miss inv' instances_le_one [OF K inv'] one again
      GetAndRemove_inv [OF inv, of b] sync_inv_empty [of K]
    by (simp add: r_def lock_in_mode_def)
qed

theorem GetAndLock_one_instance_witness:
  "sync_inv 4 ex_tab
   \<and> GetAndLock 4 ex_thr 0x400500 ex_tab 0x1008 True = ((ex_var, MtxLock), ex_tab(1 := [ex_var]))
   \<and> GetAndLock 4 ex_thr 0x400700 (ex_tab(1 := [ex_var])) 0x1008 False
       = ((ex_var, MtxReadLock), ex_tab(1 := [ex_var]))
   \<and> instances 4 (ex_tab(1 := [ex_var])) 0x1008 = [ex_var]"
proof -
  have K: "0 < (4::nat)" by simp
  have i0: "sync_inv 4 ex_tab"
    by (simp add: sync_inv_def ex_tab_def list_all_iff)
  have idx: "PartIdx 4 0x1008 = 1"
    by (simp add: PartIdx_def drop_bit_eq_div)
  have newv: "(SyncVar_new 0x1008)\<lparr>sv_creation_stack := ObtainCurrent ex_thr 0x400500\<rparr> = ex_var"
    by (simp add: ex_var_def SyncVar_new_def ObtainCurrent_def ex_thr_def)
  have a: "GetAndLock 4 ex_thr 0x400500 ex_tab 0x1008 True = ((ex_var, MtxLock), ex_tab(1 := [ex_var]))"
    using GetAndLock_one_instance [OF K i0, of "0x1008" ex_thr "0x400500" True]
    by (simp add: idx newv ex_tab_def lock_in_mode_def)
  have i1: "sync_inv 4 (ex_tab(1 := [ex_var]))"
    using GetAndLock_one_instance [OF K i0, of "0x1008" ex_thr "0x400500" True] by (simp add: a)
  have b: "GetAndLock 4 ex_thr 0x400700 (ex_tab(1 := [ex_var])) 0x1008 False
       = ((ex_var, MtxReadLock), ex_tab(1 := [ex_var]))"
    using GetAndLock_one_instance [OF K i1, of "0x1008" ex_thr "0x400700" False]
    by (simp add: idx ex_var_def SyncVar_new_def lock_in_mode_def)
  have c: "instances 4 (ex_tab(1 := [ex_var])) 0x1008 = [ex_var]"
    using GetAndLock_one_instance [OF K i0, of "0x1008" ex_thr "0x400500" True] by (simp add: a)
  show ?thesis by (intro conjI i0 a b c)
qed

section \<open>Range accesses are split into bytes, cells and bytes\<close>

lemma upt_map_shift: "map f [0..<Suc n] = f 0 # map (\<lambda>k. f (Suc k)) [0..<n]"
  by (simp only: upt_conv_Cons [of 0 "Suc n"] zero_less_Suc list.map map_Suc_upt [symmetric]
      map_map comp_def)

lemma word_and_7: "(a :: uptr) AND 7 = a mod 8"
proof -
  have "a AND mask 3 = take_bit 3 a" by (simp only: take_bit_eq_mask)
  also have "\<dots> = a mod 2 ^ 3" by (simp only: take_bit_eq_mod)
  finally have "a AND mask 3 = a mod 2 ^ 3" .
  moreover have "mask 3 = (7 :: uptr)" by (simp add: mask_eq_exp_minus_1)
  ultimately show ?thesis by simp
qed

lemma word_mod_8_zero: "((a :: uptr) mod 8 = 0) = (unat a mod 8 = 0)"
  by (simp add: unat_eq_zero [symmetric] unat_mod del: unat_eq_zero)

lemma unat_plus_one_mod_8: "unat ((a :: uptr) + 1) mod 8 = (unat a + 1) mod 8"
proof -
  have "unat (a + 1) = (unat a + 1) mod 2 ^ 64"
    by (simp add: unat_word_ariths)
  moreover have "(8::nat) dvd 2 ^ 64" by simp
  ultimately show ?thesis by (simp add: mod_mod_cancel)
qed

lemma range_tail_eq:
  "range_tail fs w sm a sz calls =
     calls @ map (\<lambda>k. byte_piece fs w sm (a + of_nat k)) [0..<unat sz]"
proof (induction "unat sz" arbitrary: a sz calls)
  case 0
  then have "sz = 0" by (simp add: unat_eq_zero)
  then show ?case by (simp add: range_tail.simps)
next
  case (Suc n)
  then have nz: "sz \<noteq> 0" by auto
  with Suc.hyps(2) have n: "n = unat (sz - 1)" by (simp add: unat_minus_one)
  have step: "range_tail fs w sm a sz calls =
      range_tail fs w sm (a + 1) (sz - 1) (calls @ [byte_piece fs w sm a])"
    using nz by (subst range_tail.simps) (simp add: byte_piece_def kShadowCell_def)
  have shift: "a + 1 + of_nat k = a + of_nat (Suc k)" for k
    by simp
  show ?case
    unfolding step Suc.hyps(1) [OF n] Suc.hyps(2) [symmetric] upt_map_shift [of _ n] shift
    by (simp add: n [symmetric])
qed

lemma range_body_eq:
  "range_body fs w sm a sz calls =
     (sm + 64 * of_nat (unat sz div 8), a + 8 * of_nat (unat sz div 8),
      of_nat (unat sz mod 8),
      calls @ map (\<lambda>j. access_call fs w (sm + 64 * of_nat j) (a + 8 * of_nat j) 0 3)
                [0..<unat sz div 8])"
proof (induction "unat sz div 8" arbitrary: sm a sz calls)
  case 0
  then have lt: "unat sz < 8" by simp
  then have "\<not> kShadowCell \<le> sz" by (simp add: kShadowCell_def word_le_nat_alt)
  then have "range_body fs w sm a sz calls = (sm, a, sz, calls)"
    by (subst range_body.simps) simp
  moreover from lt have "unat sz div 8 = 0" "unat sz mod 8 = unat sz" by simp_all
  ultimately show ?case by simp
next
  case (Suc n)
  then have ge: "8 \<le> unat sz" by simp
  then have le: "kShadowCell \<le> sz" and le8: "(8 :: uptr) \<le> sz"
    by (simp_all add: kShadowCell_def word_le_nat_alt)
  have u: "unat (sz - 8) = unat sz - 8" using le8 by (simp add: unat_sub)
  from Suc.hyps(2) ge have n: "n = unat (sz - 8) div 8" unfolding u by simp
  have m: "unat (sz - 8) mod 8 = unat sz mod 8" unfolding u using ge by (simp add: le_mod_geq)
  have d: "unat sz div 8 = Suc (unat (sz - 8) div 8)" using Suc.hyps(2) n by simp
  have step: "range_body fs w sm a sz calls =
      range_body fs w (sm + 64) (a + 8) (sz - 8) (calls @ [access_call fs w sm a 0 3])"
    using le by (subst range_body.simps) (simp add: kShadowCell_def kShadowCnt_def)
  have s1: "sm + 64 + 64 * of_nat k = sm + 64 * of_nat (Suc k)"
    and s2: "a + 8 + 8 * of_nat k = a + 8 * of_nat (Suc k)" for k
    by simp_all
  show ?case
    unfolding step Suc.hyps(1) [OF n] m d upt_map_shift [of _ "unat (sz - 8) div 8"] s1 s2
    by simp
qed

lemma head_len_step:
  assumes "unat a mod 8 \<noteq> 0" and "sz \<noteq> 0"
  shows "head_len a sz = Suc (head_len (a + 1) (sz - 1))"
proof -
  from assms(2) have s: "unat (sz - 1) = unat sz - 1" and pos: "0 < unat sz"
    by (simp_all add: unat_minus_one unat_gt_0)
  have r: "unat a mod 8 < 8" by simp
  show ?thesis
    unfolding head_len_def unat_plus_one_mod_8 s
    using assms(1) pos r by (simp add: min_def mod_Suc) arith
qed

lemma head_len_zero: "(head_len a sz = 0) = (unat a mod 8 = 0 \<or> sz = 0)"
  by (auto simp: head_len_def min_def unat_eq_zero)

lemma range_head_eq:
  "range_head fs w sm a sz calls =
     (a + of_nat (head_len a sz), sz - of_nat (head_len a sz),
      calls @ map (\<lambda>i. byte_piece fs w sm (a + of_nat i)) [0..<head_len a sz])"
proof (induction "head_len a sz" arbitrary: a sz calls)
  case 0
  then have z: "head_len a sz = 0" by simp
  then have "\<not> (a mod kShadowCell \<noteq> 0 \<and> sz \<noteq> 0)"
    by (simp add: head_len_zero kShadowCell_def word_mod_8_zero)
  then have "range_head fs w sm a sz calls = (a, sz, calls)"
    by (subst range_head.simps) auto
  then show ?case by (simp add: z)
next
  case (Suc n)
  then have nz: "head_len a sz \<noteq> 0" by simp
  then have c: "unat a mod 8 \<noteq> 0" "sz \<noteq> 0" by (simp_all add: head_len_zero)
  from head_len_step [OF c] Suc.hyps(2) have n: "n = head_len (a + 1) (sz - 1)" by simp
  have h: "head_len a sz = Suc (head_len (a + 1) (sz - 1))" by (rule head_len_step [OF c])
  have step: "range_head fs w sm a sz calls =
      range_head fs w sm (a + 1) (sz - 1) (calls @ [byte_piece fs w sm a])"
    using c by (subst range_head.simps)
      (simp add: byte_piece_def kShadowCell_def word_mod_8_zero)
  have s1: "a + 1 + of_nat k = a + of_nat (Suc k)"
    and s2: "sz - 1 - of_nat k = sz - of_nat (Suc k)" for k
    by simp_all
  show ?case
    unfolding step Suc.hyps(1) [OF n] h upt_map_shift [of _ "head_len (a + 1) (sz - 1)"] s1 s2
    by simp
qed

lemma head_len_le: "head_len a sz \<le> unat sz"
  by (simp add: head_len_def)

lemma head_len_less_8: "head_len a sz < 8"
  by (simp add: head_len_def min_def) arith

lemma unat_sub_of_nat:
  assumes "h \<le> unat (sz :: uptr)"
  shows "unat (sz - of_nat h) = unat sz - h"
proof -
  have u: "unat (of_nat h :: uptr) = h" by (rule le_unat_uoi [OF assms])
  with assms have "(of_nat h :: uptr) \<le> sz" by (simp add: word_le_nat_alt)
  then show ?thesis by (simp add: unat_sub u)
qed

lemma unat_plus_mod_8: "unat ((a :: uptr) + of_nat x) mod 8 = (unat a + x) mod 8"
proof -
  have "unat (a + of_nat x) = (unat a + x mod 2 ^ 64) mod 2 ^ 64"
    by (simp add: unat_word_ariths unat_of_nat)
  moreover have d: "(8::nat) dvd 2 ^ 64" by simp
  ultimately have "unat (a + of_nat x) mod 8 = (unat a + x mod 2 ^ 64) mod 8"
    by (simp add: mod_mod_cancel)
  also have "\<dots> = (unat a mod 8 + (x mod 2 ^ 64) mod 8) mod 8"
    by (simp only: mod_add_eq)
  also have "(x mod 2 ^ 64) mod 8 = x mod 8"
    using d by (simp add: mod_mod_cancel)
  finally show ?thesis by (simp only: mod_add_eq)
qed

lemma body_aligned:
  assumes "8 \<le> unat sz - head_len a sz"
  shows "(a + of_nat (head_len a sz + 8 * j)) AND 7 = 0"
proof -
  define r where "r = unat a mod 8"
  define q where "q = unat a div 8"
  have r: "r < 8" by (simp add: r_def)
  have aq: "unat a = 8 * q + r" by (simp add: r_def q_def)
  have "\<exists>k. unat a + head_len a sz = 8 * k"
  proof (cases "r = 0")
    case True
    then have "head_len a sz = 0" by (simp add: head_len_def r_def)
    with aq True show ?thesis by auto
  next
    case False
    with assms have "head_len a sz = 8 - r"
      by (simp add: head_len_def r_def min_def split: if_splits)
    with aq r have "unat a + head_len a sz = 8 * (q + 1)" by simp
    then show ?thesis by blast
  qed
  then obtain k where "unat a + head_len a sz = 8 * k" by blast
  then have "unat a + (head_len a sz + 8 * j) = 8 * (k + j)" by simp
  then have "(unat a + (head_len a sz + 8 * j)) mod 8 = 0"
    by (simp only: mod_mult_self1_is_0)
  then show ?thesis
    unfolding word_and_7 word_mod_8_zero unat_plus_mod_8 .
qed

lemma range_loops_eq: "range_loops fs w sm a sz = range_pieces fs w sm a sz"
proof -
  define h where "h = head_len a sz"
  define m where "m = (unat sz - h) div 8"
  define t where "t = (unat sz - h) mod 8"
  define sm1 where "sm1 = (if unat a mod 8 = 0 then sm else sm + 64)"
  have u1: "unat (sz - of_nat h) = unat sz - h"
    unfolding h_def by (rule unat_sub_of_nat [OF head_len_le])
  have "t < 8" by (simp add: t_def)
  then have "t < 2 ^ 64" by simp
  then have ut: "unat (of_nat t :: uptr) = t"
    by (simp add: unat_of_nat)
  have sm1': "(if a mod kShadowCell \<noteq> 0 then sm + 8 * kShadowCnt else sm) = sm1"
    by (simp add: sm1_def kShadowCell_def kShadowCnt_def word_mod_8_zero)
  have cells: "map (\<lambda>j. access_call fs w (sm1 + 64 * of_nat j) (a + of_nat h + 8 * of_nat j) 0 3) [0..<m]
             = map (\<lambda>j. cell_piece fs w (sm1 + 64 * of_nat j) (a + of_nat (h + 8 * j))) [0..<m]"
  proof (rule map_cong [OF refl])
    fix j assume "j \<in> set [0..<m]"
    then have "0 < m" by auto
    then have "8 \<le> unat sz - head_len a sz" by (simp add: m_def h_def)
    from body_aligned [OF this, of j]
    show "access_call fs w (sm1 + 64 * of_nat j) (a + of_nat h + 8 * of_nat j) 0 3
        = cell_piece fs w (sm1 + 64 * of_nat j) (a + of_nat (h + 8 * j))"
      by (simp add: cell_piece_def h_def add.assoc)
  qed
  have bytes: "a + of_nat h + 8 * of_nat m + of_nat k = a + of_nat (h + 8 * m + k)" for k
    by (simp add: add.assoc)
  show ?thesis
    unfolding range_loops_def range_head_eq sm1' prod.case Let_def range_body_eq range_tail_eq
      h_def [symmetric] u1 m_def [symmetric] t_def [symmetric] ut cells bytes
    by (simp add: range_pieces_def Let_def h_def [symmetric] m_def [symmetric] t_def [symmetric]
        sm1_def [symmetric])
qed

lemma range_pieces_shape:
  "list_all (\<lambda>c. mc_is_write c = w \<and> sh_is_write (mc_cur c) = w
                 \<and> sh_addr0 (mc_cur c) = mc_addr c AND 7
                 \<and> sh_size_log (mc_cur c) = mc_size_log c
                 \<and> mc_fast_state c = fs
                 \<and> (mc_size_log c = 0 \<or> mc_size_log c = 3 \<and> mc_addr c AND 7 = 0))
     (range_pieces fs w sm a sz)"
proof -
  have al: "(a + (of_nat (head_len a sz) + 8 * of_nat j)) AND 7 = 0"
    if "j < (unat sz - head_len a sz) div 8" for j
  proof -
    from that have "8 \<le> unat sz - head_len a sz" by simp
    from body_aligned [OF this, of j] show ?thesis by simp
  qed
  show ?thesis
    unfolding range_pieces_def Let_def list_all_iff
    by (auto simp: byte_piece_def cell_piece_def access_call_def SetAddr0AndSizeLog_def
        SetWrite_def Shadow_of_def al)
qed

text \<open>
  C1. A call of \<open>MemoryAccessRange\<close> with a size other than 0 and the ignore bit clear
  (and, in a debug build, addresses that pass the debug checks) increments the epoch
  of the thread once, appends one trace event, and calls \<open>MemoryAccessImpl\<close> for the
  pieces of the range in order: per-byte accesses (size log 0) up to the first 8-byte
  cell boundary, then aligned 8-byte cells (size log 3), then the remaining bytes
  (fewer than 8); each piece carries the write flag, the new fast state and the
  offset of its address within its cell.
\<close>

theorem MemoryAccessRange_decomposed:
  assumes "sz \<noteq> 0" and "\<not> GetIgnoreBit (fast_state thr)"
    and "range_debug_checks pf addr sz (MemToShadow pf addr) = None"
  shows "MemoryAccessRange pf thr pc addr sz is_write =
           Inr (thr\<lparr>fast_state := IncrementEpoch (fast_state thr),
                    trace := trace thr @ [(fs_epoch (fast_state thr) + 1, EventTypeMop, pc)]\<rparr>,
                range_pieces (IncrementEpoch (fast_state thr)) is_write (MemToShadow pf addr)
                  addr sz)
       \<and> fs_epoch (IncrementEpoch (fast_state thr)) = fs_epoch (fast_state thr) + 1
       \<and> head_len addr sz < 8 \<and> (unat sz - head_len addr sz) mod 8 < 8
       \<and> head_len addr sz + 8 * ((unat sz - head_len addr sz) div 8)
            + (unat sz - head_len addr sz) mod 8 = unat sz
       \<and> (head_len addr sz = unat sz \<or> (unat addr + head_len addr sz) mod 8 = 0)
       \<and> list_all (\<lambda>c. mc_is_write c = is_write \<and> sh_is_write (mc_cur c) = is_write
                 \<and> sh_addr0 (mc_cur c) = mc_addr c AND 7
                 \<and> sh_size_log (mc_cur c) = mc_size_log c
                 \<and> mc_fast_state c = IncrementEpoch (fast_state thr)
                 \<and> (mc_size_log c = 0 \<or> mc_size_log c = 3 \<and> mc_addr c AND 7 = 0))
            (range_pieces (IncrementEpoch (fast_state thr)) is_write (MemToShadow pf addr)
               addr sz)"
proof -
  have run: "MemoryAccessRange pf thr pc addr sz is_write =
           Inr (thr\<lparr>fast_state := IncrementEpoch (fast_state thr),
                    trace := trace thr @ [(fs_epoch (fast_state thr) + 1, EventTypeMop, pc)]\<rparr>,
                range_pieces (IncrementEpoch (fast_state thr)) is_write (MemToShadow pf addr)
                  addr sz)"
    using assms
    by (simp add: MemoryAccessRange_def Let_def TraceAddEvent_def range_loops_eq
        IncrementEpoch_def)
  have ep: "fs_epoch (IncrementEpoch (fast_state thr)) = fs_epoch (fast_state thr) + 1"
    by (simp add: IncrementEpoch_def)
  have total: "head_len addr sz + 8 * ((unat sz - head_len addr sz) div 8)
            + (unat sz - head_len addr sz) mod 8 = unat sz"
    using head_len_le [of addr sz] by simp
  have bound: "head_len addr sz = unat sz \<or> (unat addr + head_len addr sz) mod 8 = 0"
  proof -
    have "unat addr mod 8 < 8" by simp
    then show ?thesis
      by (simp add: head_len_def min_def) presburger
  qed
  show ?thesis
    by (intro conjI run ep head_len_less_8 total bound range_pieces_shape) simp
qed

theorem MemoryAccessRange_decomposed_witness:
  "(13 :: uptr) \<noteq> 0 \<and> \<not> GetIgnoreBit (fast_state ex_thr)
   \<and> range_debug_checks ex_pf 0x1005 13 (MemToShadow ex_pf 0x1005) = None
   \<and> MemoryAccessRange ex_pf ex_thr 0x400500 0x1005 13 True =
       Inr (ex_thr\<lparr>fast_state := ex_fs, trace := [(6, EventTypeMop, 0x400500)]\<rparr>,
            [access_call ex_fs True 0x100000008000 0x1005 5 0,
             access_call ex_fs True 0x100000008000 0x1006 6 0,
             access_call ex_fs True 0x100000008000 0x1007 7 0,
             access_call ex_fs True 0x100000008040 0x1008 0 3,
             access_call ex_fs True 0x100000008080 0x1010 0 0,
             access_call ex_fs True 0x100000008080 0x1011 1 0])"
proof -
  have a: "(13 :: uptr) \<noteq> 0" by simp
  have b: "\<not> GetIgnoreBit (fast_state ex_thr)" by (simp add: GetIgnoreBit_def ex_thr_def)
  have c: "range_debug_checks ex_pf 0x1005 13 (MemToShadow ex_pf 0x1005) = None"
    by (simp add: range_debug_checks_def ex_pf_def)
  have fs: "IncrementEpoch (fast_state ex_thr) = ex_fs"
    by (simp add: IncrementEpoch_def ex_thr_def ex_fs_def)
  have sm: "MemToShadow ex_pf 0x1005 = 0x100000008000"
    by (simp add: ex_pf_def)
  have h: "head_len 0x1005 13 = 3" by (simp add: head_len_def)
  have l3: "[0..<3] = [0, 1, 2]" and l2: "[0..<2] = [0, 1]" and l1: "[0..<1] = [0]"
    by (simp_all add: upt_rec)
  have pieces: "range_pieces ex_fs True 0x100000008000 0x1005 13 =
            [access_call ex_fs True 0x100000008000 0x1005 5 0,
             access_call ex_fs True 0x100000008000 0x1006 6 0,
             access_call ex_fs True 0x100000008000 0x1007 7 0,
             access_call ex_fs True 0x100000008040 0x1008 0 3,
             access_call ex_fs True 0x100000008080 0x1010 0 0,
             access_call ex_fs True 0x100000008080 0x1011 1 0]"
    by (simp add: range_pieces_def h Let_def l3 l2 l1 byte_piece_def cell_piece_def word_and_7)
  have tr: "trace ex_thr = []" "fs_epoch (fast_state ex_thr) + 1 = 6"
    by (simp_all add: ex_thr_def)
  show ?thesis
    using MemoryAccessRange_decomposed [OF a b c, of "0x400500" True] a b c
    by (simp add: fs sm pieces tr)
qed

end
